theory Spec2Isabelle
  imports Main "HOL-Library.Word"
begin

section \<open>BENXI relay: the durable store, the ephemeral store and the route handlers\<close>

text \<open>
  The development embeds the route handlers of the relay (accounts, keys, messages) as
  state-passing functions over the tables of \<^verbatim>\<open>db/init.sql\<close> and over the Redis
  key space. Each handler takes the state it reads and returns the HTTP response together
  with the state it leaves behind. Every \<^verbatim>\<open>query\<close> of the handlers goes through
  \<^verbatim>\<open>pool.query\<close>, one statement per call, each committed on its own; the statements are
  modelled one by one and a handler threads the store through them in source order.

  Conventions.
  \<^item> Request bodies are typed JSON: a top-level field is absent (\<open>None\<close>) or carries a
    value of its documented type; the presence tests of the handlers are JavaScript
    truthiness tests, so an empty string and the number 0 count as missing.
  \<^item> UUID text coming from the client (path parameters, \<^verbatim>\<open>recipient_id\<close>) is parsed by
    the database; the parser is the parameter \<open>uuid_in\<close>, and text it rejects makes the
    statement fail. The account identifier of the authenticated caller comes from the
    bearer token the server minted and is a UUID.
  \<^item> Values drawn by the platform (\<^verbatim>\<open>gen_random_uuid()\<close>, \<^verbatim>\<open>randomBytes(32)\<close>,
    \<^verbatim>\<open>uuidv4()\<close>) and the clock (seconds) are arguments of the handler.
  \<^item> Ed25519 verification is the parameter \<open>crypto_sign_verify_detached\<close>; it returns
    \<open>None\<close> where the library throws.
  \<^item> A failing statement is a value of \<open>pg_error\<close>; the handler's \<^verbatim>\<open>catch\<close> turns
    it into a response. Loss of the connection to either store is not modelled.
  \<^item> The Redis client of the authentication routes is the value that
    \<^verbatim>\<open>const { redis } = require('../cache/redis')\<close> binds when the router module is
    loaded. The handlers take that value as an argument; a method call on
    \<^verbatim>\<open>undefined\<close> throws and the handler's \<^verbatim>\<open>catch\<close> answers 500. Which value the
    running server binds follows from the order in which \<^verbatim>\<open>index.js\<close> loads the modules
    and connects.
\<close>

subsection \<open>Bytes, hex text, identifiers\<close>

type_synonym uuid = "128 word"
type_synonym bytes = "8 word list"

definition hex_digit :: "char \<Rightarrow> nat option" where
  "hex_digit c = map_of
     [(CHR ''0'', 0), (CHR ''1'', 1), (CHR ''2'', 2), (CHR ''3'', 3), (CHR ''4'', 4),
      (CHR ''5'', 5), (CHR ''6'', 6), (CHR ''7'', 7), (CHR ''8'', 8), (CHR ''9'', 9),
      (CHR ''a'', 10), (CHR ''b'', 11), (CHR ''c'', 12), (CHR ''d'', 13), (CHR ''e'', 14),
      (CHR ''f'', 15),
      (CHR ''A'', 10), (CHR ''B'', 11), (CHR ''C'', 12), (CHR ''D'', 13), (CHR ''E'', 14),
      (CHR ''F'', 15)] c"

text \<open>\<^verbatim>\<open>Buffer.from(s, 'hex')\<close>: two digits per byte, stopping at the first pair that is
  not hexadecimal; a trailing single character is dropped.\<close>

fun buffer_from_hex :: "string \<Rightarrow> bytes" where
  "buffer_from_hex (a # b # cs) =
     (case hex_digit a of
        None \<Rightarrow> []
      | Some h \<Rightarrow>
          (case hex_digit b of
             None \<Rightarrow> []
           | Some l \<Rightarrow> of_nat (16 * h + l) # buffer_from_hex cs))"
| "buffer_from_hex cs = []"

definition hex_char :: "nat \<Rightarrow> char" where
  "hex_char n = ''0123456789abcdef'' ! (n mod 16)"

text \<open>\<^verbatim>\<open>buf.toString('hex')\<close>: two lowercase digits per byte.\<close>

definition to_hex :: "bytes \<Rightarrow> string" where
  "to_hex bs = concat (map (\<lambda>b. [hex_char (unat b div 16), hex_char (unat b mod 16)]) bs)"

definition crypto_sign_PUBLICKEYBYTES :: nat where
  "crypto_sign_PUBLICKEYBYTES = 32"

record env =
  crypto_sign_verify_detached :: "bytes \<Rightarrow> bytes \<Rightarrow> bytes \<Rightarrow> bool option"
  uuid_in :: "string \<Rightarrow> uuid option"

subsection \<open>The durable store (db/init.sql)\<close>

record account_row =
  acc_id :: uuid
  acc_public_key :: bytes
  acc_registration_id :: int
  acc_created_at :: nat

record signed_prekey_row =
  spk_id :: nat
  spk_account_id :: uuid
  spk_key_id :: int
  spk_public_key :: bytes
  spk_signature :: bytes
  spk_created_at :: nat

record one_time_prekey_row =
  otpk_id :: nat
  otpk_account_id :: uuid
  otpk_key_id :: int
  otpk_public_key :: bytes

text \<open>The queue row has exactly the columns of \<^verbatim>\<open>message_queue\<close>: identifier,
  recipient, ciphertext, classification tag, expiry.\<close>

record message_row =
  msg_id :: uuid
  msg_recipient_id :: uuid
  msg_ciphertext :: bytes
  msg_message_type :: int
  msg_expires_at :: nat

text \<open>The two \<^verbatim>\<open>SERIAL\<close> columns draw from sequences; \<open>*_seq\<close> is the last value
  handed out. A sequence value is used up by every insert that reaches the executor, also
  by one that then fails or does nothing.\<close>

record db =
  accounts :: "account_row list"
  signed_prekeys :: "signed_prekey_row list"
  signed_prekeys_seq :: nat
  one_time_prekeys :: "one_time_prekey_row list"
  one_time_prekeys_seq :: nat
  message_queue :: "message_row list"

datatype pg_error =
    UniqueViolation
  | ForeignKeyViolation
  | NumericValueOutOfRange
  | SequenceLimit

text \<open>The SQLSTATE the handlers look at: \<^verbatim>\<open>err.code === '23505'\<close>.\<close>

fun pg_code :: "pg_error \<Rightarrow> string" where
  "pg_code UniqueViolation = ''23505''"
| "pg_code ForeignKeyViolation = ''23503''"
| "pg_code NumericValueOutOfRange = ''22003''"
| "pg_code SequenceLimit = ''2200H''"

definition int4_ok :: "int \<Rightarrow> bool" where
  "int4_ok k = (- 2147483648 \<le> k \<and> k \<le> 2147483647)"

definition int2_ok :: "int \<Rightarrow> bool" where
  "int2_ok k = (- 32768 \<le> k \<and> k \<le> 32767)"

definition serial_max :: nat where
  "serial_max = 2147483647"

definition account_exists :: "db \<Rightarrow> uuid \<Rightarrow> bool" where
  "account_exists d a = (\<exists>r \<in> set (accounts d). acc_id r = a)"

text \<open>\<^verbatim>\<open>INSERT INTO accounts (public_key, registration_id) VALUES ($1, $2) RETURNING id\<close>;
  \<open>new_id\<close> is the value of \<^verbatim>\<open>gen_random_uuid()\<close>.\<close>

definition insert_account ::
  "db \<Rightarrow> bytes \<Rightarrow> int \<Rightarrow> uuid \<Rightarrow> nat \<Rightarrow> (pg_error + uuid) \<times> db" where
  "insert_account d public_key registration_id new_id now =
     (if \<not> int4_ok registration_id then (Inl NumericValueOutOfRange, d)
      else if \<exists>r \<in> set (accounts d). acc_id r = new_id \<or> acc_public_key r = public_key
        then (Inl UniqueViolation, d)
      else (Inr new_id,
            d\<lparr>accounts := accounts d @
                 [\<lparr>acc_id = new_id, acc_public_key = public_key,
                   acc_registration_id = registration_id, acc_created_at = now\<rparr>]\<rparr>))"

text \<open>\<^verbatim>\<open>INSERT INTO signed_prekeys (account_id, key_id, public_key, signature)
  VALUES ($1, $2, $3, $4)\<close>, with \<^verbatim>\<open>UNIQUE (account_id)\<close> and the foreign key.\<close>

definition insert_signed_prekey ::
  "db \<Rightarrow> uuid \<Rightarrow> int \<Rightarrow> bytes \<Rightarrow> bytes \<Rightarrow> nat \<Rightarrow> (pg_error + unit) \<times> db" where
  "insert_signed_prekey d account_id key_id public_key signature now =
     (if \<not> int4_ok key_id then (Inl NumericValueOutOfRange, d)
      else if serial_max \<le> signed_prekeys_seq d then (Inl SequenceLimit, d)
      else
        let n = signed_prekeys_seq d + 1;
            d1 = d\<lparr>signed_prekeys_seq := n\<rparr>
        in if \<exists>r \<in> set (signed_prekeys d). spk_account_id r = account_id
             then (Inl UniqueViolation, d1)
           else if \<not> account_exists d account_id then (Inl ForeignKeyViolation, d1)
           else (Inr (),
                 d1\<lparr>signed_prekeys := signed_prekeys d @
                       [\<lparr>spk_id = n, spk_account_id = account_id, spk_key_id = key_id,
                         spk_public_key = public_key, spk_signature = signature,
                         spk_created_at = now\<rparr>]\<rparr>))"

definition otpk_conflict :: "db \<Rightarrow> uuid \<Rightarrow> int \<Rightarrow> bool" where
  "otpk_conflict d account_id key_id =
     (\<exists>r \<in> set (one_time_prekeys d). otpk_account_id r = account_id \<and> otpk_key_id r = key_id)"

text \<open>\<^verbatim>\<open>INSERT INTO one_time_prekeys (account_id, key_id, public_key) VALUES ($1, $2, $3)\<close>,
  with \<^verbatim>\<open>UNIQUE (account_id, key_id)\<close> and the foreign key. With \<open>do_nothing\<close> the
  statement carries \<^verbatim>\<open>ON CONFLICT (account_id, key_id) DO NOTHING\<close>.\<close>

definition insert_one_time_prekey ::
  "bool \<Rightarrow> db \<Rightarrow> uuid \<Rightarrow> int \<Rightarrow> bytes \<Rightarrow> (pg_error + unit) \<times> db" where
  "insert_one_time_prekey do_nothing d account_id key_id public_key =
     (if \<not> int4_ok key_id then (Inl NumericValueOutOfRange, d)
      else if serial_max \<le> one_time_prekeys_seq d then (Inl SequenceLimit, d)
      else
        let n = one_time_prekeys_seq d + 1;
            d1 = d\<lparr>one_time_prekeys_seq := n\<rparr>
        in if otpk_conflict d account_id key_id
             then (if do_nothing then (Inr (), d1) else (Inl UniqueViolation, d1))
           else if \<not> account_exists d account_id then (Inl ForeignKeyViolation, d1)
           else (Inr (),
                 d1\<lparr>one_time_prekeys := one_time_prekeys d @
                       [\<lparr>otpk_id = n, otpk_account_id = account_id, otpk_key_id = key_id,
                         otpk_public_key = public_key\<rparr>]\<rparr>))"

text \<open>\<^verbatim>\<open>SELECT id FROM one_time_prekeys WHERE account_id = $1 ORDER BY id ASC LIMIT 1\<close>
  (the row lock \<^verbatim>\<open>FOR UPDATE SKIP LOCKED\<close> has no effect when statements run one
  after the other).\<close>

definition select_oldest_otpk_id :: "db \<Rightarrow> uuid \<Rightarrow> nat option" where
  "select_oldest_otpk_id d account_id =
     (case sort_key otpk_id (filter (\<lambda>r. otpk_account_id r = account_id) (one_time_prekeys d)) of
        [] \<Rightarrow> None
      | r # rs \<Rightarrow> Some (otpk_id r))"

text \<open>\<^verbatim>\<open>DELETE FROM one_time_prekeys WHERE id = (SELECT ...) RETURNING key_id, public_key\<close>:
  the rows deleted, and the store without them. A null subquery result deletes nothing.\<close>

definition delete_oldest_otpk :: "db \<Rightarrow> uuid \<Rightarrow> one_time_prekey_row list \<times> db" where
  "delete_oldest_otpk d account_id =
     (case select_oldest_otpk_id d account_id of
        None \<Rightarrow> ([], d)
      | Some i \<Rightarrow>
          (filter (\<lambda>r. otpk_id r = i) (one_time_prekeys d),
           d\<lparr>one_time_prekeys := filter (\<lambda>r. otpk_id r \<noteq> i) (one_time_prekeys d)\<rparr>))"

text \<open>\<^verbatim>\<open>SELECT COUNT(*) FROM one_time_prekeys WHERE account_id = $1\<close>.\<close>

definition count_otpk :: "db \<Rightarrow> uuid \<Rightarrow> nat" where
  "count_otpk d account_id =
     length (filter (\<lambda>r. otpk_account_id r = account_id) (one_time_prekeys d))"

definition message_ttl :: nat where
  "message_ttl = 30 * 24 * 60 * 60"

text \<open>\<^verbatim>\<open>INSERT INTO message_queue (recipient_id, ciphertext, message_type)
  VALUES ($1, $2, $3) RETURNING id\<close>; the identifier is the value of
  \<^verbatim>\<open>gen_random_uuid()\<close>, the expiry the column default.\<close>

definition insert_message ::
  "db \<Rightarrow> uuid \<Rightarrow> bytes \<Rightarrow> int \<Rightarrow> uuid \<Rightarrow> nat \<Rightarrow> (pg_error + uuid) \<times> db" where
  "insert_message d recipient ciphertext message_type new_id now =
     (if \<not> int2_ok message_type then (Inl NumericValueOutOfRange, d)
      else if \<exists>m \<in> set (message_queue d). msg_id m = new_id then (Inl UniqueViolation, d)
      else if \<not> account_exists d recipient then (Inl ForeignKeyViolation, d)
      else (Inr new_id,
            d\<lparr>message_queue := message_queue d @
                 [\<lparr>msg_id = new_id, msg_recipient_id = recipient, msg_ciphertext = ciphertext,
                   msg_message_type = message_type, msg_expires_at = now + message_ttl\<rparr>]\<rparr>))"

text \<open>\<^verbatim>\<open>SELECT id, ciphertext, message_type FROM message_queue WHERE recipient_id = $1
  ORDER BY id ASC LIMIT 100\<close>. UUIDs compare bytewise, that is as unsigned 128-bit
  numbers.\<close>

definition select_queue :: "db \<Rightarrow> uuid \<Rightarrow> message_row list" where
  "select_queue d account_id =
     take 100 (sort_key msg_id (filter (\<lambda>m. msg_recipient_id m = account_id) (message_queue d)))"

text \<open>\<^verbatim>\<open>DELETE FROM message_queue WHERE id = $1 AND recipient_id = $2 RETURNING id\<close>.\<close>

definition delete_queue_row :: "db \<Rightarrow> uuid \<Rightarrow> uuid \<Rightarrow> message_row list \<times> db" where
  "delete_queue_row d i account_id =
     (filter (\<lambda>m. msg_id m = i \<and> msg_recipient_id m = account_id) (message_queue d),
      d\<lparr>message_queue :=
           filter (\<lambda>m. \<not> (msg_id m = i \<and> msg_recipient_id m = account_id)) (message_queue d)\<rparr>)"

subsection \<open>The ephemeral store (Redis)\<close>

text \<open>A key holds a value and the instant it expires at; an expired key reads as absent.\<close>

type_synonym redis = "string \<rightharpoonup> (string \<times> nat)"

text \<open>\<^verbatim>\<open>redis.set(key, value, 'EX', ttl)\<close>.\<close>

definition redis_set_ex :: "redis \<Rightarrow> string \<Rightarrow> string \<Rightarrow> nat \<Rightarrow> nat \<Rightarrow> redis" where
  "redis_set_ex r k v ttl now = r(k \<mapsto> (v, now + ttl))"

text \<open>\<^verbatim>\<open>redis.getdel(key)\<close>: one command that reads the key and removes it.\<close>

definition redis_getdel :: "redis \<Rightarrow> string \<Rightarrow> nat \<Rightarrow> string option \<times> redis" where
  "redis_getdel r k now =
     (case r k of
        None \<Rightarrow> (None, r)
      | Some (v, expiry) \<Rightarrow> (if now < expiry then Some v else None, r(k := None)))"

text \<open>The client (\<^verbatim>\<open>cache/redis.js\<close>). The module keeps it in the variable
  \<^verbatim>\<open>let redis;\<close>, which is \<^verbatim>\<open>undefined\<close> until \<^verbatim>\<open>connectRedis()\<close> assigns the
  connected client, and exports it through the getter \<^verbatim>\<open>get redis() { return redis; }\<close>.\<close>

datatype redis_client = Undefined | Connected

record cache_redis =
  redis_var :: redis_client

definition cache_redis_loaded :: cache_redis where
  "cache_redis_loaded = \<lparr>redis_var = Undefined\<rparr>"

definition connectRedis :: "cache_redis \<Rightarrow> cache_redis" where
  "connectRedis m = m\<lparr>redis_var := Connected\<rparr>"

definition get_redis :: "cache_redis \<Rightarrow> redis_client" where
  "get_redis m = redis_var m"

text \<open>A method call on the bound value: \<open>None\<close> is the \<^verbatim>\<open>TypeError\<close> thrown on
  \<^verbatim>\<open>undefined\<close>.\<close>

definition client_set ::
  "redis_client \<Rightarrow> redis \<Rightarrow> string \<Rightarrow> string \<Rightarrow> nat \<Rightarrow> nat \<Rightarrow> redis option" where
  "client_set c r k v ttl now =
     (case c of Undefined \<Rightarrow> None | Connected \<Rightarrow> Some (redis_set_ex r k v ttl now))"

definition client_getdel ::
  "redis_client \<Rightarrow> redis \<Rightarrow> string \<Rightarrow> nat \<Rightarrow> (string option \<times> redis) option" where
  "client_getdel c r k now =
     (case c of Undefined \<Rightarrow> None | Connected \<Rightarrow> Some (redis_getdel r k now))"

subsection \<open>Requests and responses\<close>

record signed_prekey_in =
  spi_key_id :: int
  spi_public_key :: string
  spi_signature :: string

record prekey_in =
  pki_key_id :: int
  pki_public_key :: string

record register_req =
  rr_public_key :: "string option"
  rr_registration_id :: "int option"
  rr_signed_prekey :: "signed_prekey_in option"
  rr_one_time_prekeys :: "prekey_in list option"

record challenge_req =
  cr_public_key :: "string option"

record verify_req =
  vr_public_key :: "string option"
  vr_signature :: "string option"

record send_req =
  sr_recipient_id :: "string option"
  sr_ciphertext :: "string option"
  sr_message_type :: "int option"

record put_prekeys_req =
  pr_one_time_prekeys :: "prekey_in list option"

text \<open>The payload of the bearer token: \<^verbatim>\<open>jwt.sign({ sub: accountId, jti }, ...)\<close>.\<close>

record token =
  tok_sub :: uuid
  tok_jti :: uuid

record message_out =
  mo_id :: uuid
  mo_ciphertext :: string
  mo_message_type :: int

record prekey_bundle =
  bu_registration_id :: int
  bu_identity_key :: string
  bu_signed_prekey :: "int \<times> string \<times> string"
  bu_one_time_prekey :: "(int \<times> string) option"

datatype body =
    Error string
  | AccountId uuid
  | Nonce string
  | Session token uuid
  | MessageId uuid
  | Messages "message_out list"
  | Deleted
  | Keys prekey_bundle nat bool
  | Uploaded nat nat

type_synonym response = "nat \<times> body"

text \<open>JavaScript truthiness of an optional string and of an optional number.\<close>

definition truthy_str :: "string option \<Rightarrow> bool" where
  "truthy_str s = (case s of None \<Rightarrow> False | Some t \<Rightarrow> t \<noteq> [])"

definition truthy_num :: "int option \<Rightarrow> bool" where
  "truthy_num n = (case n of None \<Rightarrow> False | Some k \<Rightarrow> k \<noteq> 0)"

subsection \<open>Authentication routes\<close>

text \<open>The \<^verbatim>\<open>catch\<close> of \<^verbatim>\<open>/register\<close>.\<close>

definition register_catch :: "pg_error \<Rightarrow> response" where
  "register_catch e =
     (if pg_code e = ''23505'' then (409, Error ''key_already_registered'')
      else (500, Error ''internal_error''))"

text \<open>The loop \<^verbatim>\<open>for (const otpk of one_time_prekeys) await query(INSERT ...)\<close>; with
  \<open>do_nothing\<close> it is the loop of \<^verbatim>\<open>PUT /keys/prekeys\<close>. The first failing statement
  throws out of the loop.\<close>

fun insert_one_time_prekeys ::
  "bool \<Rightarrow> db \<Rightarrow> uuid \<Rightarrow> prekey_in list \<Rightarrow> (pg_error + unit) \<times> db" where
  "insert_one_time_prekeys do_nothing d account_id [] = (Inr (), d)"
| "insert_one_time_prekeys do_nothing d account_id (k # ks) =
     (case insert_one_time_prekey do_nothing d account_id (pki_key_id k)
             (buffer_from_hex (pki_public_key k)) of
        (Inl e, d1) \<Rightarrow> (Inl e, d1)
      | (Inr u, d1) \<Rightarrow> insert_one_time_prekeys do_nothing d1 account_id ks)"

text \<open>\<^verbatim>\<open>POST /accounts/register\<close>.\<close>

definition register ::
  "env \<Rightarrow> db \<Rightarrow> register_req \<Rightarrow> uuid \<Rightarrow> nat \<Rightarrow> response \<times> db" where
  "register e d req new_id now =
     (if \<not> truthy_str (rr_public_key req) \<or> \<not> truthy_num (rr_registration_id req)
           \<or> rr_signed_prekey req = None \<or> rr_one_time_prekeys req = None
        then ((400, Error ''missing_fields''), d)
      else
        let public_key = the (rr_public_key req);
            registration_id = the (rr_registration_id req);
            signed_prekey = the (rr_signed_prekey req);
            prekeys = the (rr_one_time_prekeys req);
            pubKeyBytes = buffer_from_hex public_key
        in if length pubKeyBytes \<noteq> crypto_sign_PUBLICKEYBYTES
             then ((400, Error ''invalid_key_length''), d)
           else
             let spkPubKey = buffer_from_hex (spi_public_key signed_prekey);
                 spkSig = buffer_from_hex (spi_signature signed_prekey)
             in (case crypto_sign_verify_detached e spkSig spkPubKey pubKeyBytes of
                   None \<Rightarrow> ((500, Error ''internal_error''), d)
                 | Some False \<Rightarrow> ((400, Error ''invalid_signed_prekey_signature''), d)
                 | Some True \<Rightarrow>
                     (case insert_account d pubKeyBytes registration_id new_id now of
                        (Inl err, d1) \<Rightarrow> (register_catch err, d1)
                      | (Inr accountId, d1) \<Rightarrow>
                          (case insert_signed_prekey d1 accountId (spi_key_id signed_prekey)
                                  spkPubKey spkSig now of
                             (Inl err, d2) \<Rightarrow> (register_catch err, d2)
                           | (Inr u, d2) \<Rightarrow>
                               (case insert_one_time_prekeys False d2 accountId prekeys of
                                  (Inl err, d3) \<Rightarrow> (register_catch err, d3)
                                | (Inr v, d3) \<Rightarrow> ((201, AccountId accountId), d3))))))"

text \<open>\<^verbatim>\<open>SELECT id FROM accounts WHERE public_key = $1\<close>.\<close>

definition select_account_by_key :: "db \<Rightarrow> bytes \<Rightarrow> account_row list" where
  "select_account_by_key d public_key = filter (\<lambda>r. acc_public_key r = public_key) (accounts d)"

text \<open>\<^verbatim>\<open>POST /accounts/challenge\<close>; \<open>redis\<close> is the client bound in the module and
  \<open>rnd\<close> the value of \<^verbatim>\<open>randomBytes(32)\<close> drawn by the branch taken.\<close>

definition challenge ::
  "redis_client \<Rightarrow> db \<Rightarrow> redis \<Rightarrow> challenge_req \<Rightarrow> bytes \<Rightarrow> nat \<Rightarrow> response \<times> redis" where
  "challenge redis d r req rnd now =
     (if \<not> truthy_str (cr_public_key req) then ((400, Error ''missing_fields''), r)
      else
        let public_key = the (cr_public_key req);
            pubKeyBytes = buffer_from_hex public_key
        in if select_account_by_key d pubKeyBytes = []
             then ((200, Nonce (to_hex rnd)), r)
           else
             let nonce = to_hex rnd;
                 challengeKey = ''challenge:'' @ public_key
             in (case client_set redis r challengeKey nonce 120 now of
                   None \<Rightarrow> ((500, Error ''internal_error''), r)
                 | Some r1 \<Rightarrow> ((200, Nonce nonce), r1)))"

text \<open>\<^verbatim>\<open>POST /accounts/verify\<close>; \<open>jti\<close> is the value of \<^verbatim>\<open>uuidv4()\<close>. The handler
  writes nothing to the durable store.\<close>

definition verify ::
  "redis_client \<Rightarrow> env \<Rightarrow> db \<Rightarrow> redis \<Rightarrow> verify_req \<Rightarrow> uuid \<Rightarrow> nat \<Rightarrow> response \<times> redis" where
  "verify redis e d r req jti now =
     (if \<not> truthy_str (vr_public_key req) \<or> \<not> truthy_str (vr_signature req)
        then ((400, Error ''missing_fields''), r)
      else
        let public_key = the (vr_public_key req);
            pubKeyBytes = buffer_from_hex public_key;
            sigBytes = buffer_from_hex (the (vr_signature req));
            challengeKey = ''challenge:'' @ public_key
        in (case client_getdel redis r challengeKey now of
              None \<Rightarrow> ((500, Error ''internal_error''), r)
            | Some (nonce, r1) \<Rightarrow>
                if \<not> truthy_str nonce
                  then ((401, Error ''invalid_or_expired_challenge''), r1)
                else
                  (case crypto_sign_verify_detached e sigBytes (buffer_from_hex (the nonce))
                          pubKeyBytes of
                     None \<Rightarrow> ((500, Error ''internal_error''), r1)
                   | Some False \<Rightarrow> ((401, Error ''invalid_signature''), r1)
                   | Some True \<Rightarrow>
                       (case select_account_by_key d pubKeyBytes of
                          [] \<Rightarrow> ((401, Error ''account_not_found''), r1)
                        | row # rows \<Rightarrow>
                            ((200, Session \<lparr>tok_sub = acc_id row, tok_jti = jti\<rparr> (acc_id row)),
                             r1)))))"

subsection \<open>Message routes\<close>

text \<open>\<^verbatim>\<open>POST /messages/send\<close>. \<open>account_id\<close> is \<^verbatim>\<open>req.account_id\<close>, set by the
  authentication middleware. The third component is the notification handed to
  \<^verbatim>\<open>broadcastToAccount\<close>: the recipient as given and the new message identifier.\<close>

definition send ::
  "env \<Rightarrow> db \<Rightarrow> uuid \<Rightarrow> send_req \<Rightarrow> uuid \<Rightarrow> nat \<Rightarrow> response \<times> db \<times> (string \<times> uuid) option" where
  "send e d account_id req new_id now =
     (if \<not> truthy_str (sr_recipient_id req) \<or> \<not> truthy_str (sr_ciphertext req)
        then ((400, Error ''missing_fields''), d, None)
      else
        let recipient_id = the (sr_recipient_id req);
            message_type = (case sr_message_type req of None \<Rightarrow> 1 | Some t \<Rightarrow> t);
            ciphertextBytes = buffer_from_hex (the (sr_ciphertext req))
        in if 262144 < length ciphertextBytes
             then ((413, Error ''message_too_large''), d, None)
           else
             (case uuid_in e recipient_id of
                None \<Rightarrow> ((500, Error ''internal_error''), d, None)
              | Some rid \<Rightarrow>
                  if \<not> account_exists d rid
                    then ((404, Error ''recipient_not_found''), d, None)
                  else
                    (case insert_message d rid ciphertextBytes message_type new_id now of
                       (Inl err, d1) \<Rightarrow> ((500, Error ''internal_error''), d1, None)
                     | (Inr messageId, d1) \<Rightarrow>
                         ((201, MessageId messageId), d1, Some (recipient_id, messageId)))))"

text \<open>\<^verbatim>\<open>GET /messages/receive\<close>.\<close>

definition receive :: "db \<Rightarrow> uuid \<Rightarrow> response \<times> db" where
  "receive d account_id =
     ((200, Messages (map (\<lambda>row. \<lparr>mo_id = msg_id row,
                                   mo_ciphertext = to_hex (msg_ciphertext row),
                                   mo_message_type = msg_message_type row\<rparr>)
                          (select_queue d account_id))), d)"

text \<open>\<^verbatim>\<open>DELETE /messages/:id\<close>.\<close>

definition delete_message :: "env \<Rightarrow> db \<Rightarrow> uuid \<Rightarrow> string \<Rightarrow> response \<times> db" where
  "delete_message e d account_id ident =
     (case uuid_in e ident of
        None \<Rightarrow> ((500, Error ''internal_error''), d)
      | Some i \<Rightarrow>
          (case delete_queue_row d i account_id of
             (rows, d1) \<Rightarrow>
               if rows = [] then ((404, Error ''message_not_found''), d1)
               else ((200, Deleted), d1)))"

subsection \<open>Key distribution routes\<close>

text \<open>\<^verbatim>\<open>GET /keys/:account_id\<close>. \<open>threshold\<close> is \<^verbatim>\<open>PREKEY_REFILL_THRESHOLD\<close> when the
  environment sets it.\<close>

definition get_keys :: "env \<Rightarrow> nat option \<Rightarrow> db \<Rightarrow> string \<Rightarrow> response \<times> db" where
  "get_keys e threshold d account_id =
     (case uuid_in e account_id of
        None \<Rightarrow> ((500, Error ''internal_error''), d)
      | Some a \<Rightarrow>
          (case filter (\<lambda>r. acc_id r = a) (accounts d) of
             [] \<Rightarrow> ((404, Error ''account_not_found''), d)
           | acc # accs \<Rightarrow>
               (case filter (\<lambda>r. spk_account_id r = a) (signed_prekeys d) of
                  [] \<Rightarrow> ((404, Error ''no_signed_prekey''), d)
                | spk # spks \<Rightarrow>
                    (case delete_oldest_otpk d a of
                       (otpkRows, d1) \<Rightarrow>
                         let otpk = (case otpkRows of [] \<Rightarrow> None | row # rows \<Rightarrow> Some row);
                             b = \<lparr>bu_registration_id = acc_registration_id acc,
                                  bu_identity_key = to_hex (acc_public_key acc),
                                  bu_signed_prekey =
                                    (spk_key_id spk, to_hex (spk_public_key spk),
                                     to_hex (spk_signature spk)),
                                  bu_one_time_prekey =
                                    map_option (\<lambda>row. (otpk_key_id row,
                                                        to_hex (otpk_public_key row))) otpk\<rparr>;
                             remainingPrekeys = count_otpk d1 a
                         in ((200, Keys b remainingPrekeys
                                (remainingPrekeys <
                                   (case threshold of None \<Rightarrow> 10 | Some t \<Rightarrow> t))), d1)))))"

text \<open>\<^verbatim>\<open>PUT /keys/prekeys\<close>.\<close>

definition put_prekeys :: "db \<Rightarrow> uuid \<Rightarrow> put_prekeys_req \<Rightarrow> response \<times> db" where
  "put_prekeys d account_id req =
     (case pr_one_time_prekeys req of
        None \<Rightarrow> ((400, Error ''missing_prekeys''), d)
      | Some prekeys \<Rightarrow>
          if length prekeys = 0 then ((400, Error ''missing_prekeys''), d)
          else if 200 < length prekeys then ((400, Error ''too_many_prekeys''), d)
          else
            (case insert_one_time_prekeys True d account_id prekeys of
               (Inl err, d1) \<Rightarrow> ((500, Error ''internal_error''), d1)
             | (Inr u, d1) \<Rightarrow>
                 ((200, Uploaded (length prekeys) (count_otpk d1 account_id)), d1)))"

subsection \<open>Module loading and start-up (index.js)\<close>

text \<open>\<^verbatim>\<open>index.js\<close> requires the routers while it is itself loaded (lines 20 to 26), and
  \<^verbatim>\<open>api/auth.js\<close> then runs \<^verbatim>\<open>const { redis } = require('../cache/redis')\<close>: the
  destructuring reads the getter once, at that moment, and keeps the value.
  \<^verbatim>\<open>start()\<close>, called at the end of \<^verbatim>\<open>index.js\<close>, runs \<^verbatim>\<open>connectRedis()\<close>, which
  assigns the module variable of \<^verbatim>\<open>cache/redis.js\<close> and nothing else.\<close>

record server =
  auth_redis :: redis_client
  cache_redis_module :: cache_redis

definition load_index :: server where
  "load_index =
     (let m = cache_redis_loaded
      in \<lparr>auth_redis = get_redis m, cache_redis_module = m\<rparr>)"

definition start :: "server \<Rightarrow> server" where
  "start s = s\<lparr>cache_redis_module := connectRedis (cache_redis_module s)\<rparr>"

text \<open>The server once it listens.\<close>

definition running :: server where
  "running = start load_index"

subsection \<open>Runs of requests\<close>

text \<open>Requests are served one after the other; a run threads the store through the
  handlers and collects the responses.\<close>

fun verify_seq ::
  "redis_client \<Rightarrow> env \<Rightarrow> db \<Rightarrow> redis \<Rightarrow> (verify_req \<times> uuid \<times> nat) list
     \<Rightarrow> response list \<times> redis" where
  "verify_seq redis e d r [] = ([], r)"
| "verify_seq redis e d r (a # rest) =
     (case verify redis e d r (fst a) (fst (snd a)) (snd (snd a)) of
        (resp, r1) \<Rightarrow>
          (case verify_seq redis e d r1 rest of (resps, r2) \<Rightarrow> (resp # resps, r2)))"

text \<open>Runs of challenge and verify requests, in any order.\<close>

datatype auth_op =
  Challenge challenge_req bytes nat
| Verify verify_req uuid nat

fun auth_step :: "redis_client \<Rightarrow> env \<Rightarrow> db \<Rightarrow> redis \<Rightarrow> auth_op \<Rightarrow> response \<times> redis" where
  "auth_step redis e d r (Challenge req rnd now) = challenge redis d r req rnd now"
| "auth_step redis e d r (Verify req jti now) = verify redis e d r req jti now"

fun auth_run ::
  "redis_client \<Rightarrow> env \<Rightarrow> db \<Rightarrow> redis \<Rightarrow> auth_op list \<Rightarrow> response list \<times> redis" where
  "auth_run redis e d r [] = ([], r)"
| "auth_run redis e d r (x # xs) =
     (case auth_step redis e d r x of
        (resp, r1) \<Rightarrow>
          (case auth_run redis e d r1 xs of (resps, r2) \<Rightarrow> (resp # resps, r2)))"

text \<open>The requests that write to the durable store, and drain, which reads it. (Challenge
  and verify leave the durable store as it is.)\<close>

datatype keys_op =
    Fetch string
  | Replenish uuid put_prekeys_req
  | Register register_req uuid nat
  | SendMessage uuid send_req uuid nat
  | Drain uuid
  | DeleteMessage uuid string

fun keys_step :: "env \<Rightarrow> nat option \<Rightarrow> db \<Rightarrow> keys_op \<Rightarrow> response \<times> db" where
  "keys_step e t d (Fetch target) = get_keys e t d target"
| "keys_step e t d (Replenish account_id req) = put_prekeys d account_id req"
| "keys_step e t d (Register req new_id now) = register e d req new_id now"
| "keys_step e t d (SendMessage account_id req new_id now) =
     (case send e d account_id req new_id now of (resp, d1, note) \<Rightarrow> (resp, d1))"
| "keys_step e t d (Drain account_id) = receive d account_id"
| "keys_step e t d (DeleteMessage account_id ident) = delete_message e d account_id ident"

fun keys_run :: "env \<Rightarrow> nat option \<Rightarrow> db \<Rightarrow> keys_op list \<Rightarrow> response list \<times> db" where
  "keys_run e t d [] = ([], d)"
| "keys_run e t d (x # xs) =
     (case keys_step e t d x of
        (resp, d1) \<Rightarrow> (case keys_run e t d1 xs of (resps, d2) \<Rightarrow> (resp # resps, d2)))"

text \<open>The key identifier of the one-time prekey a response hands out, if any.\<close>

fun fetched_key :: "response \<Rightarrow> int option" where
  "fetched_key (st, Keys b n f) = map_option fst (bu_one_time_prekey b)"
| "fetched_key (st, other) = None"

text \<open>A replenish request of account \<open>a\<close> that uploads key identifier \<open>k\<close>.\<close>

fun reuploads :: "uuid \<Rightarrow> int \<Rightarrow> keys_op \<Rightarrow> bool" where
  "reuploads a k (Replenish account_id req) =
     (account_id = a \<and>
      (case pr_one_time_prekeys req of
         None \<Rightarrow> False
       | Some ks \<Rightarrow> k \<in> set (map pki_key_id ks)))"
| "reuploads a k other = False"

text \<open>The constraints of \<^verbatim>\<open>one_time_prekeys\<close>: the primary key, \<^verbatim>\<open>UNIQUE (account_id,
  key_id)\<close>, and identifiers drawn from the sequence.\<close>

definition otpk_wf :: "db \<Rightarrow> bool" where
  "otpk_wf d =
     (distinct (map otpk_id (one_time_prekeys d))
      \<and> distinct (map (\<lambda>r. (otpk_account_id r, otpk_key_id r)) (one_time_prekeys d))
      \<and> list_all (\<lambda>r. otpk_id r \<le> one_time_prekeys_seq d) (one_time_prekeys d))"

text \<open>The columns a one-time prekey row takes from the request, and the condition
  under which the account insert of register goes through.\<close>

definition otpk_cols :: "one_time_prekey_row \<Rightarrow> uuid \<times> int \<times> bytes" where
  "otpk_cols r = (otpk_account_id r, otpk_key_id r, otpk_public_key r)"

definition prekey_cols :: "uuid \<Rightarrow> prekey_in \<Rightarrow> uuid \<times> int \<times> bytes" where
  "prekey_cols a k = (a, pki_key_id k, buffer_from_hex (pki_public_key k))"

definition account_insert_ok :: "db \<Rightarrow> bytes \<Rightarrow> int \<Rightarrow> uuid \<Rightarrow> bool" where
  "account_insert_ok d public_key registration_id new_id =
     (int4_ok registration_id \<and>
      \<not> (\<exists>r \<in> set (accounts d). acc_id r = new_id \<or> acc_public_key r = public_key))"

subsection \<open>A concrete environment and store for the worked examples\<close>

text \<open>Identity keys: the public keys of the first three test vectors of RFC 8032
  (Ed25519), as bytes and as the hex text a client sends.\<close>

definition key_a_hex :: string where
  "key_a_hex = ''d75a980182b10ab7d54bfed3c964073a0ee172f3daa62325af021a68f707511a''"

definition key_a :: bytes where
  "key_a = [215, 90, 152, 1, 130, 177, 10, 183, 213, 75, 254, 211, 201, 100, 7, 58, 14, 225,
            114, 243, 218, 166, 35, 37, 175, 2, 26, 104, 247, 7, 81, 26]"

definition key_b_hex :: string where
  "key_b_hex = ''3d4017c3e843895a92b70aa74d1b7ebc9c982ccf2ec4968cc0cd55f12af4660c''"

definition key_b :: bytes where
  "key_b = [61, 64, 23, 195, 232, 67, 137, 90, 146, 183, 10, 167, 77, 27, 126, 188, 156, 152,
            44, 207, 46, 196, 150, 140, 192, 205, 85, 241, 42, 244, 102, 12]"

definition key_c_hex :: string where
  "key_c_hex = ''fc51cd8e6218a1a38da47ed00230f0580816ed13ba3303ac5deb911548908025''"

definition key_c :: bytes where
  "key_c = [252, 81, 205, 142, 98, 24, 161, 163, 141, 164, 126, 208, 2, 48, 240, 88, 8, 22,
            237, 19, 186, 51, 3, 172, 93, 235, 145, 21, 72, 144, 128, 37]"

text \<open>The Ed25519 signature of the bytes of key B under key A, and of the bytes of key A
  under key B.\<close>

definition sig_a_over_b_hex :: string where
  "sig_a_over_b_hex =
     ''317895f2b868ffe2375adb6b43ae4e1698cee4c168f03db220729d47eb1f707acfa91987e9e42c4de4fd51d9b359426a9621993fdf51ea612f07dd55baad4f0b''"

definition sig_a_over_b :: bytes where
  "sig_a_over_b =
     [49, 120, 149, 242, 184, 104, 255, 226, 55, 90, 219, 107, 67, 174, 78, 22, 152, 206, 228,
      193, 104, 240, 61, 178, 32, 114, 157, 71, 235, 31, 112, 122, 207, 169, 25, 135, 233, 228,
      44, 77, 228, 253, 81, 217, 179, 89, 66, 106, 150, 33, 153, 63, 223, 81, 234, 97, 47, 7,
      221, 85, 186, 173, 79, 11]"

definition sig_b_over_a_hex :: string where
  "sig_b_over_a_hex =
     ''43257665f17bf8c9a82a0fc34707f9eeee0d14b0d56830e4b9bbce29565afd9e186a010f337812f9bbe8ca567de2b95a74bc6966ff19ac1ec076dcc272640d0e''"

definition sig_b_over_a :: bytes where
  "sig_b_over_a =
     [67, 37, 118, 101, 241, 123, 248, 201, 168, 42, 15, 195, 71, 7, 249, 238, 238, 13, 20,
      176, 213, 104, 48, 228, 185, 187, 206, 41, 86, 90, 253, 158, 24, 106, 1, 15, 51, 120, 18,
      249, 187, 232, 202, 86, 125, 226, 185, 90, 116, 188, 105, 102, 255, 25, 172, 30, 192,
      118, 220, 194, 114, 100, 13, 14]"

text \<open>A challenge nonce of 32 bytes and its Ed25519 signature under key A.\<close>

definition nonce_1_hex :: string where
  "nonce_1_hex = ''4d2fc5b7c61ab07f9fd566d465a6c39d70bd6adcb54a2c2b8114223f95c1b772''"

definition nonce_1 :: bytes where
  "nonce_1 = [77, 47, 197, 183, 198, 26, 176, 127, 159, 213, 102, 212, 101, 166, 195, 157,
              112, 189, 106, 220, 181, 74, 44, 43, 129, 20, 34, 63, 149, 193, 183, 114]"

definition sig_a_over_nonce_hex :: string where
  "sig_a_over_nonce_hex =
     ''fad7518c92a23d12aff24112ca10ed918b44b2632cde44c7fc06bc273d251aeec9779218c516b17121c81b9c8189844a4030ca0f2bb9ab6aba96ccfb1832be07''"

definition sig_a_over_nonce :: bytes where
  "sig_a_over_nonce =
     [250, 215, 81, 140, 146, 162, 61, 18, 175, 242, 65, 18, 202, 16, 237, 145, 139, 68, 178,
      99, 44, 222, 68, 199, 252, 6, 188, 39, 61, 37, 26, 238, 201, 119, 146, 24, 197, 22, 177,
      113, 33, 200, 27, 156, 129, 137, 132, 74, 64, 48, 202, 15, 43, 185, 171, 106, 186, 150,
      204, 251, 24, 50, 190, 7]"

text \<open>A stand-in for \<^verbatim>\<open>crypto_sign_verify_detached\<close>: like the library it throws on a
  signature that is not 64 bytes long and on a key that is not 32 bytes long; it accepts
  the three signatures above and no other.\<close>

definition demo_verify :: "bytes \<Rightarrow> bytes \<Rightarrow> bytes \<Rightarrow> bool option" where
  "demo_verify s m k =
     (if length s \<noteq> 64 \<or> length k \<noteq> 32 then None
      else Some ((s, m, k) \<in> set [(sig_a_over_b, key_b, key_a), (sig_b_over_a, key_a, key_b),
                                  (sig_a_over_nonce, nonce_1, key_a)]))"

text \<open>A stand-in for the UUID input of the database: it accepts the canonical text, 32
  hexadecimal digits in groups of 8, 4, 4, 4 and 12 separated by hyphens.\<close>

fun hex_nat :: "nat \<Rightarrow> string \<Rightarrow> nat option" where
  "hex_nat acc [] = Some acc"
| "hex_nat acc (c # cs) =
     (case hex_digit c of None \<Rightarrow> None | Some h \<Rightarrow> hex_nat (16 * acc + h) cs)"

definition canonical_uuid :: "string \<Rightarrow> uuid option" where
  "canonical_uuid s =
     (if length s = 36 \<and> s ! 8 = CHR ''-'' \<and> s ! 13 = CHR ''-'' \<and> s ! 18 = CHR ''-''
         \<and> s ! 23 = CHR ''-''
      then map_option of_nat
             (hex_nat 0 (take 8 s @ take 4 (drop 9 s) @ take 4 (drop 14 s)
                          @ take 4 (drop 19 s) @ drop 24 s))
      else None)"

definition demo_env :: env where
  "demo_env = \<lparr>crypto_sign_verify_detached = demo_verify, uuid_in = canonical_uuid\<rparr>"

text \<open>Identifiers, as the database draws them (version 4 UUIDs), with their text.\<close>

definition id_a :: uuid where
  "id_a = 0x11111111111141118111111111111111"

definition id_a_text :: string where
  "id_a_text = ''11111111-1111-4111-8111-111111111111''"

definition id_b :: uuid where
  "id_b = 0x22222222222242228222222222222222"

definition id_b_text :: string where
  "id_b_text = ''22222222-2222-4222-8222-222222222222''"

definition id_m3 :: uuid where
  "id_m3 = 0x33333333333343338333333333333333"

definition id_m3_text :: string where
  "id_m3_text = ''33333333-3333-4333-8333-333333333333''"

definition id_m4 :: uuid where
  "id_m4 = 0x44444444444444448444444444444444"

definition id_m5 :: uuid where
  "id_m5 = 0x55555555555545558555555555555555"

definition id_new :: uuid where
  "id_new = 0x99999999999949998999999999999999"

definition jti_1 :: uuid where
  "jti_1 = 0x77777777777747778777777777777777"

definition jti_2 :: uuid where
  "jti_2 = 0x88888888888848888888888888888888"

definition empty_db :: db where
  "empty_db = \<lparr>accounts = [], signed_prekeys = [], signed_prekeys_seq = 0,
               one_time_prekeys = [], one_time_prekeys_seq = 0, message_queue = []\<rparr>"

text \<open>Two accounts, A and B, with their signed prekeys; account A has one one-time prekey
  (key identifier 7), account B has none, and one message is queued for account B.\<close>

definition demo_db :: db where
  "demo_db =
     \<lparr>accounts =
        [\<lparr>acc_id = id_a, acc_public_key = key_a, acc_registration_id = 42,
          acc_created_at = 0\<rparr>,
         \<lparr>acc_id = id_b, acc_public_key = key_b, acc_registration_id = 43,
          acc_created_at = 0\<rparr>],
      signed_prekeys =
        [\<lparr>spk_id = 1, spk_account_id = id_a, spk_key_id = 1, spk_public_key = key_b,
          spk_signature = sig_a_over_b, spk_created_at = 0\<rparr>,
         \<lparr>spk_id = 2, spk_account_id = id_b, spk_key_id = 1, spk_public_key = key_a,
          spk_signature = sig_b_over_a, spk_created_at = 0\<rparr>],
      signed_prekeys_seq = 2,
      one_time_prekeys =
        [\<lparr>otpk_id = 1, otpk_account_id = id_a, otpk_key_id = 7, otpk_public_key = [9]\<rparr>],
      one_time_prekeys_seq = 1,
      message_queue =
        [\<lparr>msg_id = id_m3, msg_recipient_id = id_b, msg_ciphertext = [222, 173],
          msg_message_type = 1, msg_expires_at = 2592000\<rparr>]\<rparr>"

section \<open>Facts about the worked examples\<close>

lemma key_a_bytes: "buffer_from_hex key_a_hex = key_a"
  by (simp add: key_a_hex_def key_a_def hex_digit_def)

lemma key_b_bytes: "buffer_from_hex key_b_hex = key_b"
  by (simp add: key_b_hex_def key_b_def hex_digit_def)

lemma sig_a_over_b_bytes: "buffer_from_hex sig_a_over_b_hex = sig_a_over_b"
  by (simp add: sig_a_over_b_hex_def sig_a_over_b_def hex_digit_def)

lemma sig_a_over_nonce_bytes: "buffer_from_hex sig_a_over_nonce_hex = sig_a_over_nonce"
  by (simp add: sig_a_over_nonce_hex_def sig_a_over_nonce_def hex_digit_def)

lemma nonce_1_bytes: "buffer_from_hex nonce_1_hex = nonce_1"
  by (simp add: nonce_1_hex_def nonce_1_def hex_digit_def)

lemma nonce_1_text: "to_hex nonce_1 = nonce_1_hex"
  by (simp add: to_hex_def hex_char_def nonce_1_def nonce_1_hex_def)

lemma demo_hex_texts:
  "to_hex key_a = key_a_hex" "to_hex key_b = key_b_hex"
  "to_hex sig_a_over_b = sig_a_over_b_hex" "to_hex sig_b_over_a = sig_b_over_a_hex"
  by (simp_all add: to_hex_def hex_char_def key_a_def key_a_hex_def key_b_def key_b_hex_def
      sig_a_over_b_def sig_a_over_b_hex_def sig_b_over_a_def sig_b_over_a_hex_def)

lemma key_c_bytes: "buffer_from_hex key_c_hex = key_c"
  by (simp add: key_c_hex_def key_c_def hex_digit_def)

lemma key_c_unregistered: "key_c \<noteq> key_a" "key_c \<noteq> key_b"
  by (simp_all add: key_c_def key_a_def key_b_def)

lemma demo_hex_nonempty:
  "key_a_hex \<noteq> []" "key_b_hex \<noteq> []" "key_c_hex \<noteq> []" "sig_a_over_b_hex \<noteq> []"
  "sig_a_over_nonce_hex \<noteq> []" "nonce_1_hex \<noteq> []"
  by (simp_all add: key_a_hex_def key_b_hex_def key_c_hex_def sig_a_over_b_hex_def
      sig_a_over_nonce_hex_def nonce_1_hex_def)

lemma demo_lengths: "length key_a = 32" "length key_b = 32" "length key_c = 32"
  "length sig_a_over_b = 64" "length sig_a_over_nonce = 64" "length nonce_1 = 32"
  by (simp_all add: key_a_def key_b_def key_c_def sig_a_over_b_def sig_a_over_nonce_def
      nonce_1_def)

lemma key_a_neq_key_b: "key_a \<noteq> key_b" "key_b \<noteq> key_a"
  by (simp_all add: key_a_def key_b_def)

lemma demo_verify_a_over_b: "demo_verify sig_a_over_b key_b key_a = Some True"
  by (simp add: demo_verify_def demo_lengths)

lemma demo_verify_a_over_nonce: "demo_verify sig_a_over_nonce nonce_1 key_a = Some True"
  by (simp add: demo_verify_def demo_lengths)

lemma demo_verify_wrong_signature: "demo_verify sig_a_over_b nonce_1 key_a = Some False"
proof -
  have "nonce_1 \<noteq> key_b" "nonce_1 \<noteq> key_a" "sig_a_over_b \<noteq> sig_a_over_nonce"
    by (simp_all add: nonce_1_def key_a_def key_b_def sig_a_over_b_def sig_a_over_nonce_def)
  then show ?thesis
    by (simp add: demo_verify_def demo_lengths)
qed

lemma demo_uuid_texts:
  "canonical_uuid id_a_text = Some id_a"
  "canonical_uuid id_b_text = Some id_b"
  "canonical_uuid id_m3_text = Some id_m3"
  by (simp_all add: canonical_uuid_def hex_digit_def id_a_text_def id_a_def id_b_text_def
      id_b_def id_m3_text_def id_m3_def)

lemma demo_ids_distinct:
  "id_a \<noteq> id_b" "id_b \<noteq> id_a" "id_new \<noteq> id_a" "id_new \<noteq> id_b"
  "id_a \<noteq> id_new" "id_b \<noteq> id_new"
  "id_m3 \<noteq> id_m4" "id_m4 \<noteq> id_m3" "id_m3 \<noteq> id_m5" "id_m5 \<noteq> id_m3"
  "id_m4 \<noteq> id_m5" "id_m5 \<noteq> id_m4"
  by (simp_all add: id_a_def id_b_def id_new_def id_m3_def id_m4_def id_m5_def)

lemma demo_ids_order: "id_m3 \<le> id_m4" "id_m4 \<le> id_m5" "id_m3 \<le> id_m5"
  "\<not> id_m4 \<le> id_m3" "\<not> id_m5 \<le> id_m4" "\<not> id_m5 \<le> id_m3"
  by (simp_all add: id_m3_def id_m4_def id_m5_def)

section \<open>Properties of the authentication routes\<close>

subsection \<open>Registration with registration identifier 0\<close>

text \<open>
  Claim C9. A register request whose \<^verbatim>\<open>registration_id\<close> is the number 0 is answered
  with 400 \<^verbatim>\<open>missing_fields\<close>, whatever its other fields hold, and the store is left as
  it was: the presence test \<^verbatim>\<open>!registration_id\<close> is a truthiness test.
\<close>

theorem register_zero_registration_id_missing_fields:
  "register e d (req\<lparr>rr_registration_id := Some 0\<rparr>) new_id now =
     ((400, Error ''missing_fields''), d)"
  by (simp add: register_def truthy_num_def)

text \<open>The request of the worked example carries all four fields.\<close>

theorem register_zero_registration_id_witness:
  "register demo_env empty_db
     \<lparr>rr_public_key = Some key_a_hex,
      rr_registration_id = Some 0,
      rr_signed_prekey =
        Some \<lparr>spi_key_id = 1, spi_public_key = key_b_hex, spi_signature = sig_a_over_b_hex\<rparr>,
      rr_one_time_prekeys = Some [\<lparr>pki_key_id = 1, pki_public_key = key_c_hex\<rparr>]\<rparr>
     id_new 1000
   = ((400, Error ''missing_fields''), empty_db)"
  using register_zero_registration_id_missing_fields [of demo_env empty_db
     "\<lparr>rr_public_key = Some key_a_hex,
      rr_registration_id = Some 42,
      rr_signed_prekey =
        Some \<lparr>spi_key_id = 1, spi_public_key = key_b_hex, spi_signature = sig_a_over_b_hex\<rparr>,
      rr_one_time_prekeys = Some [\<lparr>pki_key_id = 1, pki_public_key = key_c_hex\<rparr>]\<rparr>"
     id_new 1000]
  by simp

subsection \<open>Registration is a sequence of separately committed inserts\<close>

lemma register_catch_status: "fst (register_catch err) = 409 \<or> fst (register_catch err) = 500"
  by (simp add: register_catch_def)

lemma insert_account_shape:
  "insert_account d pkb rid new_id now =
     (if account_insert_ok d pkb rid new_id
      then (Inr new_id,
            d\<lparr>accounts := accounts d @
                 [\<lparr>acc_id = new_id, acc_public_key = pkb, acc_registration_id = rid,
                   acc_created_at = now\<rparr>]\<rparr>)
      else (Inl (if int4_ok rid then UniqueViolation else NumericValueOutOfRange), d))"
  by (simp add: insert_account_def account_insert_ok_def)

lemma insert_signed_prekey_shape:
  assumes "insert_signed_prekey d a k p s now = (res, d')"
  shows "accounts d' = accounts d \<and> one_time_prekeys d' = one_time_prekeys d
    \<and> (case res of
         Inl err \<Rightarrow> signed_prekeys d' = signed_prekeys d
       | Inr u \<Rightarrow> signed_prekeys d' = signed_prekeys d @
           [\<lparr>spk_id = signed_prekeys_seq d + 1, spk_account_id = a, spk_key_id = k,
             spk_public_key = p, spk_signature = s, spk_created_at = now\<rparr>])"
  using assms
  by (auto simp: insert_signed_prekey_def Let_def split: if_splits)

lemma insert_one_time_prekey_shape:
  assumes "insert_one_time_prekey False d a k p = (res, d')"
  shows "accounts d' = accounts d \<and> signed_prekeys d' = signed_prekeys d
    \<and> (case res of
         Inl err \<Rightarrow> one_time_prekeys d' = one_time_prekeys d
       | Inr u \<Rightarrow> (\<exists>row. one_time_prekeys d' = one_time_prekeys d @ [row]
            \<and> otpk_account_id row = a \<and> otpk_key_id row = k \<and> otpk_public_key row = p))"
  using assms
  by (auto simp: insert_one_time_prekey_def Let_def split: if_splits)

lemma insert_one_time_prekeys_shape:
  assumes "insert_one_time_prekeys False d a ks = (res, d')"
  shows "accounts d' = accounts d \<and> signed_prekeys d' = signed_prekeys d
    \<and> (\<exists>new. one_time_prekeys d' = one_time_prekeys d @ new
          \<and> map otpk_cols new = take (length new) (map (prekey_cols a) ks)
          \<and> (case res of Inl err \<Rightarrow> length new < length ks | Inr u \<Rightarrow> length new = length ks))"
  using assms
proof (induction ks arbitrary: d)
  case Nil
  then show ?case by auto
next
  case (Cons k ks)
  obtain r1 d1 where s: "insert_one_time_prekey False d a (pki_key_id k)
      (buffer_from_hex (pki_public_key k)) = (r1, d1)"
    by (cases "insert_one_time_prekey False d a (pki_key_id k) (buffer_from_hex (pki_public_key k))")
  note sh = insert_one_time_prekey_shape [OF s]
  show ?case
  proof (cases r1)
    case (Inl err)
    with s Cons.prems have "res = Inl err" "d' = d1" by simp_all
    with sh Inl show ?thesis by simp
  next
    case (Inr u)
    with s Cons.prems have rest: "insert_one_time_prekeys False d1 a ks = (res, d')" by simp
    from sh Inr obtain row where row: "one_time_prekeys d1 = one_time_prekeys d @ [row]"
      "otpk_account_id row = a" "otpk_key_id row = pki_key_id k"
      "otpk_public_key row = buffer_from_hex (pki_public_key k)"
      by auto
    from Cons.IH [OF rest] obtain new where new: "accounts d' = accounts d1"
      "signed_prekeys d' = signed_prekeys d1"
      "one_time_prekeys d' = one_time_prekeys d1 @ new"
      "map otpk_cols new = take (length new) (map (prekey_cols a) ks)"
      "case res of Inl err \<Rightarrow> length new < length ks | Inr u \<Rightarrow> length new = length ks"
      by auto
    have "one_time_prekeys d' = one_time_prekeys d @ (row # new)"
      using row(1) new(3) by simp
    moreover have "map otpk_cols (row # new) =
        take (length (row # new)) (map (prekey_cols a) (k # ks))"
      using row(2-4) new(4) by (simp add: otpk_cols_def prekey_cols_def)
    moreover have "case res of Inl err \<Rightarrow> length (row # new) < length (k # ks)
        | Inr u \<Rightarrow> length (row # new) = length (k # ks)"
      using new(5) by (simp split: sum.splits)
    ultimately have "\<exists>new. one_time_prekeys d' = one_time_prekeys d @ new
          \<and> map otpk_cols new = take (length new) (map (prekey_cols a) (k # ks))
          \<and> (case res of Inl err \<Rightarrow> length new < length (k # ks)
               | Inr u \<Rightarrow> length new = length (k # ks))"
      by (intro exI [of _ "row # new"] conjI)
    moreover have "accounts d' = accounts d" "signed_prekeys d' = signed_prekeys d"
      using sh new(1,2) by simp_all
    ultimately show ?thesis
      by (intro conjI)
  qed
qed

text \<open>
  Claim C3, as the code has it. Register runs the account insert, the signed-prekey insert
  and one insert per one-time prekey as separate statements through \<^verbatim>\<open>pool.query\<close>,
  each committed on its own; there is no transaction. For a request that passes the
  validations: when the account insert fails (identifier or public key already present,
  registration identifier out of range) the answer is 409 or 500 and the store is
  unchanged; when it succeeds the account row is stored whatever happens next, and either
  the answer is 201 and the signed prekey and every one-time prekey are stored, or the
  answer is 409 or 500 and the rows inserted before the failing statement stay: the
  account row alone, or the account row, the signed prekey and a proper prefix of the
  one-time prekeys.
\<close>

theorem register_inserts_commit_one_by_one:
  assumes "pk \<noteq> []" and "rid \<noteq> 0"
    and "length (buffer_from_hex pk) = crypto_sign_PUBLICKEYBYTES"
    and "crypto_sign_verify_detached e (buffer_from_hex (spi_signature spk))
           (buffer_from_hex (spi_public_key spk)) (buffer_from_hex pk) = Some True"
  shows "(case register e d \<lparr>rr_public_key = Some pk, rr_registration_id = Some rid,
              rr_signed_prekey = Some spk, rr_one_time_prekeys = Some ks\<rparr> new_id now of
      (resp, d') \<Rightarrow>
        if account_insert_ok d (buffer_from_hex pk) rid new_id
        then accounts d' = accounts d @
               [\<lparr>acc_id = new_id, acc_public_key = buffer_from_hex pk,
                 acc_registration_id = rid, acc_created_at = now\<rparr>]
           \<and> (\<exists>new. one_time_prekeys d' = one_time_prekeys d @ new
                \<and> map otpk_cols new = take (length new) (map (prekey_cols new_id) ks)
                \<and> (resp = (201, AccountId new_id)
                      \<and> signed_prekeys d' = signed_prekeys d @
                          [\<lparr>spk_id = signed_prekeys_seq d + 1, spk_account_id = new_id,
                            spk_key_id = spi_key_id spk,
                            spk_public_key = buffer_from_hex (spi_public_key spk),
                            spk_signature = buffer_from_hex (spi_signature spk),
                            spk_created_at = now\<rparr>]
                      \<and> length new = length ks
                    \<or> (fst resp = 409 \<or> fst resp = 500)
                      \<and> signed_prekeys d' = signed_prekeys d \<and> new = []
                    \<or> (fst resp = 409 \<or> fst resp = 500)
                      \<and> signed_prekeys d' = signed_prekeys d @
                          [\<lparr>spk_id = signed_prekeys_seq d + 1, spk_account_id = new_id,
                            spk_key_id = spi_key_id spk,
                            spk_public_key = buffer_from_hex (spi_public_key spk),
                            spk_signature = buffer_from_hex (spi_signature spk),
                            spk_created_at = now\<rparr>]
                      \<and> length new < length ks))
        else d' = d \<and> (fst resp = 409 \<or> fst resp = 500))"
proof (cases "account_insert_ok d (buffer_from_hex pk) rid new_id")
  case False
  let ?err = "if int4_ok rid then UniqueViolation else NumericValueOutOfRange"
  have reg: "register e d \<lparr>rr_public_key = Some pk, rr_registration_id = Some rid,
        rr_signed_prekey = Some spk, rr_one_time_prekeys = Some ks\<rparr> new_id now =
        (register_catch ?err, d)"
    using assms False
    by (simp add: register_def truthy_str_def truthy_num_def insert_account_shape)
  show ?thesis
    unfolding reg prod.case if_not_P [OF False]
    using register_catch_status [of ?err] by (intro conjI refl)
next
  case True
  let ?acc = "\<lparr>acc_id = new_id, acc_public_key = buffer_from_hex pk,
      acc_registration_id = rid, acc_created_at = now\<rparr>"
  let ?d1 = "d\<lparr>accounts := accounts d @ [?acc]\<rparr>"
  let ?spk = "\<lparr>spk_id = signed_prekeys_seq d + 1, spk_account_id = new_id,
      spk_key_id = spi_key_id spk, spk_public_key = buffer_from_hex (spi_public_key spk),
      spk_signature = buffer_from_hex (spi_signature spk), spk_created_at = now\<rparr>"
  have ia: "insert_account d (buffer_from_hex pk) rid new_id now = (Inr new_id, ?d1)"
    using True by (simp add: insert_account_shape)
  obtain r2 d2 where s2: "insert_signed_prekey ?d1 new_id (spi_key_id spk)
      (buffer_from_hex (spi_public_key spk)) (buffer_from_hex (spi_signature spk)) now = (r2, d2)"
    by (cases "insert_signed_prekey ?d1 new_id (spi_key_id spk)
      (buffer_from_hex (spi_public_key spk)) (buffer_from_hex (spi_signature spk)) now")
  note sh2 = insert_signed_prekey_shape [OF s2]
  have a2: "accounts d2 = accounts d @ [?acc]" and o2: "one_time_prekeys d2 = one_time_prekeys d"
    using sh2 by simp_all
  show ?thesis
  proof (cases r2)
    case (Inl err)
    have reg: "register e d \<lparr>rr_public_key = Some pk, rr_registration_id = Some rid,
        rr_signed_prekey = Some spk, rr_one_time_prekeys = Some ks\<rparr> new_id now =
        (register_catch err, d2)"
      using assms ia s2 Inl
      by (simp add: register_def truthy_str_def truthy_num_def)
    have p2: "signed_prekeys d2 = signed_prekeys d"
      using sh2 Inl by simp
    have st: "fst (register_catch err) = 409 \<or> fst (register_catch err) = 500"
      by (rule register_catch_status)
    show ?thesis
      unfolding reg prod.case if_P [OF True]
    proof (intro conjI exI [of _ "[]"])
      show "accounts d2 = accounts d @ [?acc]" by (rule a2)
      show "one_time_prekeys d2 = one_time_prekeys d @ []" using o2 by simp
      show "map otpk_cols [] = take (length []) (map (prekey_cols new_id) ks)" by simp
      show "register_catch err = (201, AccountId new_id)
            \<and> signed_prekeys d2 = signed_prekeys d @ [?spk] \<and> length [] = length ks
          \<or> (fst (register_catch err) = 409 \<or> fst (register_catch err) = 500)
            \<and> signed_prekeys d2 = signed_prekeys d \<and> [] = []
          \<or> (fst (register_catch err) = 409 \<or> fst (register_catch err) = 500)
            \<and> signed_prekeys d2 = signed_prekeys d @ [?spk] \<and> length [] < length ks"
        using st p2 by blast
    qed
  next
    case (Inr u)
    obtain r3 d3 where s3: "insert_one_time_prekeys False d2 new_id ks = (r3, d3)"
      by (cases "insert_one_time_prekeys False d2 new_id ks")
    from insert_one_time_prekeys_shape [OF s3] obtain new where
      new: "accounts d3 = accounts d2" "signed_prekeys d3 = signed_prekeys d2"
        "one_time_prekeys d3 = one_time_prekeys d2 @ new"
        "map otpk_cols new = take (length new) (map (prekey_cols new_id) ks)"
        "case r3 of Inl err \<Rightarrow> length new < length ks | Inr u \<Rightarrow> length new = length ks"
      by auto
    let ?resp = "case r3 of Inl err \<Rightarrow> register_catch err | Inr v \<Rightarrow> (201, AccountId new_id)"
    have reg: "register e d \<lparr>rr_public_key = Some pk, rr_registration_id = Some rid,
        rr_signed_prekey = Some spk, rr_one_time_prekeys = Some ks\<rparr> new_id now = (?resp, d3)"
      using assms ia s2 Inr s3
      by (simp add: register_def truthy_str_def truthy_num_def split: sum.splits)
    have a3: "accounts d3 = accounts d @ [?acc]"
      using new(1) a2 by simp
    have p3: "signed_prekeys d3 = signed_prekeys d @ [?spk]"
      using new(2) sh2 Inr by simp
    have o3: "one_time_prekeys d3 = one_time_prekeys d @ new"
      using new(3) o2 by simp
    have fin: "?resp = (201, AccountId new_id) \<and> length new = length ks
        \<or> (fst ?resp = 409 \<or> fst ?resp = 500) \<and> length new < length ks"
      using new(5) register_catch_status by (cases r3) simp_all
    show ?thesis
      unfolding reg prod.case if_P [OF True]
    proof (intro conjI exI [of _ new])
      show "accounts d3 = accounts d @ [?acc]" by (rule a3)
      show "one_time_prekeys d3 = one_time_prekeys d @ new" by (rule o3)
      show "map otpk_cols new = take (length new) (map (prekey_cols new_id) ks)" by (rule new(4))
      show "?resp = (201, AccountId new_id)
            \<and> signed_prekeys d3 = signed_prekeys d @ [?spk] \<and> length new = length ks
          \<or> (fst ?resp = 409 \<or> fst ?resp = 500)
            \<and> signed_prekeys d3 = signed_prekeys d \<and> new = []
          \<or> (fst ?resp = 409 \<or> fst ?resp = 500)
            \<and> signed_prekeys d3 = signed_prekeys d @ [?spk] \<and> length new < length ks"
        using fin p3 by blast
    qed
  qed
qed

lemma register_duplicate_key_id_run:
  "register demo_env empty_db
     \<lparr>rr_public_key = Some key_a_hex,
      rr_registration_id = Some 42,
      rr_signed_prekey =
        Some \<lparr>spi_key_id = 1, spi_public_key = key_b_hex, spi_signature = sig_a_over_b_hex\<rparr>,
      rr_one_time_prekeys = Some [\<lparr>pki_key_id = 1, pki_public_key = key_c_hex\<rparr>,
                                  \<lparr>pki_key_id = 1, pki_public_key = key_b_hex\<rparr>]\<rparr>
     id_new 1000 =
     ((409, Error ''key_already_registered''),
      \<lparr>accounts =
         [\<lparr>acc_id = id_new, acc_public_key = key_a, acc_registration_id = 42,
           acc_created_at = 1000\<rparr>],
       signed_prekeys =
         [\<lparr>spk_id = 1, spk_account_id = id_new, spk_key_id = 1, spk_public_key = key_b,
           spk_signature = sig_a_over_b, spk_created_at = 1000\<rparr>],
       signed_prekeys_seq = 1,
       one_time_prekeys =
         [\<lparr>otpk_id = 1, otpk_account_id = id_new, otpk_key_id = 1,
           otpk_public_key = key_c\<rparr>],
       one_time_prekeys_seq = 2,
       message_queue = []\<rparr>)"
  by (simp add: register_def truthy_num_def truthy_str_def demo_env_def empty_db_def
      demo_hex_nonempty key_a_bytes key_b_bytes key_c_bytes sig_a_over_b_bytes demo_lengths
      demo_verify_a_over_b crypto_sign_PUBLICKEYBYTES_def insert_account_def int4_ok_def
      insert_signed_prekey_def serial_max_def account_exists_def insert_one_time_prekey_def
      otpk_conflict_def Let_def register_catch_def del: buffer_from_hex.simps)

text \<open>Claim C3 as stated fails: a register request for identity key A, with a signed
  prekey that carries a valid signature, whose two one-time prekeys share key identifier 1
  is answered 409, and the account row, the signed prekey and the first one-time prekey
  are in the store afterwards.\<close>

theorem register_not_atomic_counterexample:
  "fst (register demo_env empty_db
       \<lparr>rr_public_key = Some key_a_hex,
        rr_registration_id = Some 42,
        rr_signed_prekey =
          Some \<lparr>spi_key_id = 1, spi_public_key = key_b_hex, spi_signature = sig_a_over_b_hex\<rparr>,
        rr_one_time_prekeys = Some [\<lparr>pki_key_id = 1, pki_public_key = key_c_hex\<rparr>,
                                    \<lparr>pki_key_id = 1, pki_public_key = key_b_hex\<rparr>]\<rparr>
       id_new 1000) =
     (409, Error ''key_already_registered'')
   \<and> map acc_id (accounts (snd (register demo_env empty_db
       \<lparr>rr_public_key = Some key_a_hex,
        rr_registration_id = Some 42,
        rr_signed_prekey =
          Some \<lparr>spi_key_id = 1, spi_public_key = key_b_hex, spi_signature = sig_a_over_b_hex\<rparr>,
        rr_one_time_prekeys = Some [\<lparr>pki_key_id = 1, pki_public_key = key_c_hex\<rparr>,
                                    \<lparr>pki_key_id = 1, pki_public_key = key_b_hex\<rparr>]\<rparr>
       id_new 1000))) = [id_new]
   \<and> map spk_account_id (signed_prekeys (snd (register demo_env empty_db
       \<lparr>rr_public_key = Some key_a_hex,
        rr_registration_id = Some 42,
        rr_signed_prekey =
          Some \<lparr>spi_key_id = 1, spi_public_key = key_b_hex, spi_signature = sig_a_over_b_hex\<rparr>,
        rr_one_time_prekeys = Some [\<lparr>pki_key_id = 1, pki_public_key = key_c_hex\<rparr>,
                                    \<lparr>pki_key_id = 1, pki_public_key = key_b_hex\<rparr>]\<rparr>
       id_new 1000))) = [id_new]
   \<and> map otpk_cols (one_time_prekeys (snd (register demo_env empty_db
       \<lparr>rr_public_key = Some key_a_hex,
        rr_registration_id = Some 42,
        rr_signed_prekey =
          Some \<lparr>spi_key_id = 1, spi_public_key = key_b_hex, spi_signature = sig_a_over_b_hex\<rparr>,
        rr_one_time_prekeys = Some [\<lparr>pki_key_id = 1, pki_public_key = key_c_hex\<rparr>,
                                    \<lparr>pki_key_id = 1, pki_public_key = key_b_hex\<rparr>]\<rparr>
       id_new 1000))) = [(id_new, 1, key_c)]"
  by (simp add: register_duplicate_key_id_run otpk_cols_def del: buffer_from_hex.simps)

theorem register_inserts_commit_one_by_one_witness:
  "account_insert_ok empty_db (buffer_from_hex key_a_hex) 42 id_new
   \<and> fst (fst (register demo_env empty_db
       \<lparr>rr_public_key = Some key_a_hex,
        rr_registration_id = Some 42,
        rr_signed_prekey =
          Some \<lparr>spi_key_id = 1, spi_public_key = key_b_hex, spi_signature = sig_a_over_b_hex\<rparr>,
        rr_one_time_prekeys = Some [\<lparr>pki_key_id = 1, pki_public_key = key_c_hex\<rparr>,
                                    \<lparr>pki_key_id = 1, pki_public_key = key_b_hex\<rparr>]\<rparr>
       id_new 1000)) = 409
   \<and> accounts (snd (register demo_env empty_db
       \<lparr>rr_public_key = Some key_a_hex,
        rr_registration_id = Some 42,
        rr_signed_prekey =
          Some \<lparr>spi_key_id = 1, spi_public_key = key_b_hex, spi_signature = sig_a_over_b_hex\<rparr>,
        rr_one_time_prekeys = Some [\<lparr>pki_key_id = 1, pki_public_key = key_c_hex\<rparr>,
                                    \<lparr>pki_key_id = 1, pki_public_key = key_b_hex\<rparr>]\<rparr>
       id_new 1000)) =
       accounts empty_db @
         [\<lparr>acc_id = id_new, acc_public_key = buffer_from_hex key_a_hex,
           acc_registration_id = 42, acc_created_at = 1000\<rparr>]"
proof -
  let ?spk = "\<lparr>spi_key_id = 1, spi_public_key = key_b_hex, spi_signature = sig_a_over_b_hex\<rparr>"
  let ?ks = "[\<lparr>pki_key_id = 1, pki_public_key = key_c_hex\<rparr>,
              \<lparr>pki_key_id = 1, pki_public_key = key_b_hex\<rparr>]"
  have h1: "key_a_hex \<noteq> []" and h2: "(42 :: int) \<noteq> 0"
    by (simp_all add: demo_hex_nonempty)
  have h3: "length (buffer_from_hex key_a_hex) = crypto_sign_PUBLICKEYBYTES"
    by (simp add: key_a_bytes demo_lengths crypto_sign_PUBLICKEYBYTES_def)
  have h4: "crypto_sign_verify_detached demo_env (buffer_from_hex (spi_signature ?spk))
      (buffer_from_hex (spi_public_key ?spk)) (buffer_from_hex key_a_hex) = Some True"
    by (simp add: demo_env_def key_a_bytes key_b_bytes sig_a_over_b_bytes demo_verify_a_over_b)
  have ok: "account_insert_ok empty_db (buffer_from_hex key_a_hex) 42 id_new"
    by (simp add: account_insert_ok_def int4_ok_def empty_db_def)
  note t = register_inserts_commit_one_by_one [where e = demo_env and d = empty_db
      and pk = key_a_hex and rid = 42 and spk = ?spk and ks = ?ks and new_id = id_new
      and now = 1000, OF h1 h2 h3 h4]
  have "accounts (snd (register demo_env empty_db
      \<lparr>rr_public_key = Some key_a_hex, rr_registration_id = Some 42,
        rr_signed_prekey = Some ?spk, rr_one_time_prekeys = Some ?ks\<rparr> id_new 1000)) =
      accounts empty_db @
        [\<lparr>acc_id = id_new, acc_public_key = buffer_from_hex key_a_hex,
          acc_registration_id = 42, acc_created_at = 1000\<rparr>]"
    using t ok by (simp add: split_beta del: buffer_from_hex.simps)
  moreover have "fst (fst (register demo_env empty_db
      \<lparr>rr_public_key = Some key_a_hex, rr_registration_id = Some 42,
        rr_signed_prekey = Some ?spk, rr_one_time_prekeys = Some ?ks\<rparr> id_new 1000)) = 409"
    by (simp add: register_duplicate_key_id_run del: buffer_from_hex.simps)
  ultimately show ?thesis
    using ok by (intro conjI)
qed

subsection \<open>The Redis client bound by the authentication routes\<close>

text \<open>Once the server listens, the module variable of \<^verbatim>\<open>cache/redis.js\<close> holds the
  connected client, and the constant \<^verbatim>\<open>redis\<close> of \<^verbatim>\<open>api/auth.js\<close> holds what the getter
  returned when the router was loaded: \<^verbatim>\<open>undefined\<close>.\<close>

lemma auth_redis_running: "auth_redis running = Undefined"
  by (simp add: running_def start_def load_index_def get_redis_def cache_redis_loaded_def)

lemma cache_redis_running: "get_redis (cache_redis_module running) = Connected"
  by (simp add: running_def start_def load_index_def get_redis_def cache_redis_loaded_def
      connectRedis_def)

subsection \<open>The challenge response and the account's existence\<close>

lemma length_to_hex: "length (to_hex bs) = 2 * length bs"
  by (induction bs) (simp_all add: to_hex_def)

lemma set_to_hex: "set (to_hex bs) \<subseteq> set ''0123456789abcdef''"
proof -
  have "hex_char n \<in> set ''0123456789abcdef''" for n
    unfolding hex_char_def by (rule nth_mem) simp
  then show ?thesis
    by (induction bs) (auto simp: to_hex_def)
qed

text \<open>The handler with a connected client: a challenge request with a public key present
  is answered with 200 and the hex text of the 32 random bytes, 64 hexadecimal digits,
  whether or not an account has that key, and the nonce is stored under
  \<^verbatim>\<open>challenge:<pubkey>\<close> with expiry 120 seconds ahead exactly when the account exists.\<close>

lemma connected_challenge_indistinguishable:
  assumes "pk \<noteq> []"
  shows "challenge Connected d r \<lparr>cr_public_key = Some pk\<rparr> rnd now =
      ((200, Nonce (to_hex rnd)),
       if \<exists>row \<in> set (accounts d). acc_public_key row = buffer_from_hex pk
       then r(''challenge:'' @ pk \<mapsto> (to_hex rnd, now + 120)) else r)
    \<and> fst (challenge Connected d r \<lparr>cr_public_key = Some pk\<rparr> rnd now) =
        fst (challenge Connected d' r' \<lparr>cr_public_key = Some pk\<rparr> rnd now)
    \<and> (length rnd = 32 \<longrightarrow> length (to_hex rnd) = 64)
    \<and> set (to_hex rnd) \<subseteq> set ''0123456789abcdef''"
  using assms set_to_hex [of rnd]
  by (simp add: challenge_def client_set_def truthy_str_def select_account_by_key_def
      filter_empty_conv redis_set_ex_def length_to_hex Let_def)

text \<open>
  Claim C6. On the running server the challenge response depends on the account's
  existence. A challenge request with a public key present (a non-empty string, the
  handler's presence test) is answered 500 \<^verbatim>\<open>internal_error\<close> when an account has that
  key, because \<^verbatim>\<open>redis.set\<close> is called on \<^verbatim>\<open>undefined\<close>, and 200 with the hex text of
  the random bytes when no account has it; the ephemeral store is left as it was in both
  cases. The handler's comment at the branch for an unknown key reads
  \<^verbatim>\<open>Return same response as success to prevent enumeration\<close>.
\<close>

theorem challenge_reveals_existing_account:
  assumes "pk \<noteq> []"
  shows "challenge (auth_redis running) d r \<lparr>cr_public_key = Some pk\<rparr> rnd now =
      (if \<exists>row \<in> set (accounts d). acc_public_key row = buffer_from_hex pk
       then ((500, Error ''internal_error''), r)
       else ((200, Nonce (to_hex rnd)), r))"
  using assms
  by (simp add: challenge_def client_set_def auth_redis_running truthy_str_def
      select_account_by_key_def filter_empty_conv Let_def)

text \<open>Key A belongs to an account of the example store, key C to none.\<close>

theorem challenge_reveals_existing_account_witness:
  "key_a_hex \<noteq> [] \<and> key_c_hex \<noteq> []
   \<and> challenge (auth_redis running) demo_db Map.empty \<lparr>cr_public_key = Some key_a_hex\<rparr>
       nonce_1 50 =
       ((500, Error ''internal_error''), Map.empty)
   \<and> challenge (auth_redis running) demo_db Map.empty \<lparr>cr_public_key = Some key_c_hex\<rparr>
       nonce_1 50 =
       ((200, Nonce nonce_1_hex), Map.empty)"
proof -
  have x1: "\<exists>row \<in> set (accounts demo_db). acc_public_key row = buffer_from_hex key_a_hex"
    and x2: "\<not> (\<exists>row \<in> set (accounts demo_db). acc_public_key row = buffer_from_hex key_c_hex)"
    by (simp_all add: demo_db_def key_a_bytes key_c_bytes key_c_unregistered
        key_c_unregistered [symmetric])
  have "challenge (auth_redis running) demo_db Map.empty \<lparr>cr_public_key = Some key_a_hex\<rparr>
       nonce_1 50 = ((500, Error ''internal_error''), Map.empty)"
    using challenge_reveals_existing_account [OF demo_hex_nonempty(1), where d = demo_db
        and r = Map.empty and rnd = nonce_1 and now = 50] x1
    by simp
  moreover
  have "challenge (auth_redis running) demo_db Map.empty \<lparr>cr_public_key = Some key_c_hex\<rparr>
       nonce_1 50 = ((200, Nonce nonce_1_hex), Map.empty)"
    using challenge_reveals_existing_account [OF demo_hex_nonempty(3), where d = demo_db
        and r = Map.empty and rnd = nonce_1 and now = 50] x2
    by (simp add: nonce_1_text)
  ultimately show ?thesis
    using demo_hex_nonempty(1,3) by (intro conjI)
qed

subsection \<open>Verify and the stored challenge\<close>

lemma to_hex_nonempty: "bs \<noteq> [] \<Longrightarrow> to_hex bs \<noteq> []"
  using length_to_hex [of bs] by (cases "to_hex bs") simp_all

lemma hex_digit_hex_char: "hex_digit (hex_char n) = Some (n mod 16)"
proof -
  have "m < 16 \<Longrightarrow> hex_digit (''0123456789abcdef'' ! m) = Some m" for m :: nat
    by (simp add: hex_digit_def less_Suc_eq numeral_eq_Suc) (elim disjE; simp)
  then show ?thesis
    by (simp add: hex_char_def)
qed

lemma buffer_from_hex_to_hex: "buffer_from_hex (to_hex bs) = bs"
proof (induction bs)
  case Nil
  then show ?case by (simp add: to_hex_def)
next
  case (Cons b bs)
  have lt: "unat b div 16 < 16"
    using unsigned_less [of b, where 'a = nat] by simp
  have "(of_nat (16 * (unat b div 16) + unat b mod 16) :: 8 word) = b"
    by simp
  with Cons lt show ?case
    by (simp add: to_hex_def hex_digit_hex_char)
qed

lemma verify_without_live_challenge:
  assumes "vr_public_key req = Some pk" "pk \<noteq> []" "truthy_str (vr_signature req)"
    and "r (''challenge:'' @ pk) = None \<or> (\<exists>v ex. r (''challenge:'' @ pk) = Some (v, ex) \<and> ex \<le> now)"
  shows "fst (verify Connected e d r req jti now) = (401, Error ''invalid_or_expired_challenge'')"
  using assms
  by (auto simp: verify_def client_getdel_def truthy_str_def redis_getdel_def Let_def)

lemma verify_consumes_challenge:
  assumes "vr_public_key req = Some pk" "pk \<noteq> []" "truthy_str (vr_signature req)"
  shows "snd (verify Connected e d r req jti now) (''challenge:'' @ pk) = None"
  using assms
  by (auto simp: verify_def client_getdel_def truthy_str_def redis_getdel_def Let_def
      split: option.splits prod.splits list.splits bool.splits)

lemma verify_seq_without_challenge:
  assumes "pk \<noteq> []"
    and "\<forall>a \<in> set attempts. vr_public_key (fst a) = Some pk \<and> truthy_str (vr_signature (fst a))"
    and "r (''challenge:'' @ pk) = None"
  shows "fst (verify_seq Connected e d r attempts) =
     replicate (length attempts) (401, Error ''invalid_or_expired_challenge'')"
  using assms(2,3)
proof (induction attempts arbitrary: r)
  case Nil
  then show ?case by simp
next
  case (Cons a rest)
  have a: "vr_public_key (fst a) = Some pk" "truthy_str (vr_signature (fst a))"
    using Cons.prems(1) by simp_all
  obtain resp r1 where v: "verify Connected e d r (fst a) (fst (snd a)) (snd (snd a)) = (resp, r1)"
    by (cases "verify Connected e d r (fst a) (fst (snd a)) (snd (snd a))")
  have resp: "resp = (401, Error ''invalid_or_expired_challenge'')"
    using verify_without_live_challenge [OF a(1) assms(1) a(2), of r "snd (snd a)" e d "fst (snd a)"]
      Cons.prems(2) v by simp
  have "r1 (''challenge:'' @ pk) = None"
    using verify_consumes_challenge [OF a(1) assms(1) a(2), of e d r "fst (snd a)" "snd (snd a)"] v
    by simp
  then have "fst (verify_seq Connected e d r1 rest) =
      replicate (length rest) (401, Error ''invalid_or_expired_challenge'')"
    using Cons.IH [of r1] Cons.prems(1) by simp
  then show ?case
    by (auto simp: v resp split: prod.splits)
qed

lemma verify_seq_tail:
  assumes "pk \<noteq> []"
    and "\<forall>a \<in> set attempts. vr_public_key (fst a) = Some pk \<and> truthy_str (vr_signature (fst a))"
  shows "tl (fst (verify_seq Connected e d r attempts)) =
     replicate (length attempts - 1) (401, Error ''invalid_or_expired_challenge'')"
proof (cases attempts)
  case Nil
  then show ?thesis by simp
next
  case (Cons a rest)
  have a: "vr_public_key (fst a) = Some pk" "truthy_str (vr_signature (fst a))"
    using assms(2) Cons by simp_all
  obtain resp r1 where v: "verify Connected e d r (fst a) (fst (snd a)) (snd (snd a)) = (resp, r1)"
    by (cases "verify Connected e d r (fst a) (fst (snd a)) (snd (snd a))")
  have "\<forall>a \<in> set rest. vr_public_key (fst a) = Some pk \<and> truthy_str (vr_signature (fst a))"
    using assms(2) Cons by simp
  moreover have "r1 (''challenge:'' @ pk) = None"
    using verify_consumes_challenge [OF a(1) assms(1) a(2), of e d r "fst (snd a)" "snd (snd a)"] v
    by simp
  ultimately have "fst (verify_seq Connected e d r1 rest) =
      replicate (length rest) (401, Error ''invalid_or_expired_challenge'')"
    by (rule verify_seq_without_challenge [OF assms(1)])
  then show ?thesis
    using Cons v by (auto split: prod.splits)
qed

lemma filter_replicate_none: "\<not> P x \<Longrightarrow> filter P (replicate n x) = []"
  by (induction n) simp_all


text \<open>The handler with a connected client. In any run of verify requests for one public
  key, each with a signature present, from any state of the ephemeral store, at most one
  is accepted (200) and every request after the first is answered 401
  \<^verbatim>\<open>invalid_or_expired_challenge\<close>: the first verify, accepting or not, removes the key
  with \<^verbatim>\<open>GETDEL\<close>. A nonce issued at \<open>t0\<close> for an existing account is refused with the
  same 401 by a verify at \<open>t0 + 120\<close> or later.\<close>

lemma connected_challenge_single_use:
  assumes "pk \<noteq> []"
    and "\<forall>a \<in> set attempts. vr_public_key (fst a) = Some pk \<and> truthy_str (vr_signature (fst a))"
  shows "length (filter (\<lambda>resp. fst resp = 200) (fst (verify_seq Connected e d r attempts))) \<le> 1
    \<and> tl (fst (verify_seq Connected e d r attempts)) =
        replicate (length attempts - 1) (401, Error ''invalid_or_expired_challenge'')
    \<and> ((\<exists>row \<in> set (accounts d). acc_public_key row = buffer_from_hex pk)
        \<longrightarrow> truthy_str sg \<longrightarrow> t0 + 120 \<le> t
        \<longrightarrow> fst (verify Connected e d (snd (challenge Connected d r \<lparr>cr_public_key = Some pk\<rparr> rnd t0))
                 \<lparr>vr_public_key = Some pk, vr_signature = sg\<rparr> jti t) =
             (401, Error ''invalid_or_expired_challenge''))"
proof (intro conjI impI)
  let ?rs = "fst (verify_seq Connected e d r attempts)"
  have t: "tl ?rs = replicate (length attempts - 1) (401, Error ''invalid_or_expired_challenge'')"
    by (rule verify_seq_tail [OF assms])
  show "tl ?rs = replicate (length attempts - 1) (401, Error ''invalid_or_expired_challenge'')"
    by (rule t)
  have "filter (\<lambda>resp. fst resp = 200) (tl ?rs) = []"
    unfolding t by (rule filter_replicate_none) simp
  then show "length (filter (\<lambda>resp. fst resp = 200) ?rs) \<le> 1"
    by (cases ?rs) simp_all
next
  assume acc: "\<exists>row \<in> set (accounts d). acc_public_key row = buffer_from_hex pk"
    and sg: "truthy_str sg" and late: "t0 + 120 \<le> t"
  have "snd (challenge Connected d r \<lparr>cr_public_key = Some pk\<rparr> rnd t0) (''challenge:'' @ pk)
      = Some (to_hex rnd, t0 + 120)"
    using acc assms(1)
    by (auto simp: challenge_def client_set_def truthy_str_def select_account_by_key_def filter_empty_conv
        redis_set_ex_def Let_def)
  with late have "\<exists>v ex. snd (challenge Connected d r \<lparr>cr_public_key = Some pk\<rparr> rnd t0) (''challenge:'' @ pk)
      = Some (v, ex) \<and> ex \<le> t"
    by simp
  then show "fst (verify Connected e d (snd (challenge Connected d r \<lparr>cr_public_key = Some pk\<rparr> rnd t0))
                 \<lparr>vr_public_key = Some pk, vr_signature = sg\<rparr> jti t) =
             (401, Error ''invalid_or_expired_challenge'')"
    using verify_without_live_challenge [of "\<lparr>vr_public_key = Some pk, vr_signature = sg\<rparr>" pk
        "snd (challenge Connected d r \<lparr>cr_public_key = Some pk\<rparr> rnd t0)" t e d jti] assms(1) sg
    by simp
qed

text \<open>With a connected client, account A of the example store asks for a challenge at
  second 50 and answers it twice with the signature of the nonce under key A: the first
  verify is accepted, the replay is not.\<close>

lemma connected_challenge_run:
  "challenge Connected demo_db Map.empty \<lparr>cr_public_key = Some key_a_hex\<rparr> nonce_1 50 =
     ((200, Nonce nonce_1_hex), [''challenge:'' @ key_a_hex \<mapsto> (nonce_1_hex, 170)])
   \<and> verify_seq Connected demo_env demo_db
        [''challenge:'' @ key_a_hex \<mapsto> (nonce_1_hex, 170)]
        [(\<lparr>vr_public_key = Some key_a_hex, vr_signature = Some sig_a_over_nonce_hex\<rparr>,
          jti_1, 60),
         (\<lparr>vr_public_key = Some key_a_hex, vr_signature = Some sig_a_over_nonce_hex\<rparr>,
          jti_2, 61)] =
       ([(200, Session \<lparr>tok_sub = id_a, tok_jti = jti_1\<rparr> id_a),
         (401, Error ''invalid_or_expired_challenge'')], Map.empty)"
  by (simp add: challenge_def verify_def client_set_def client_getdel_def truthy_str_def
      select_account_by_key_def redis_set_ex_def redis_getdel_def demo_db_def demo_env_def
      demo_hex_nonempty key_a_bytes sig_a_over_nonce_bytes nonce_1_bytes nonce_1_text
      demo_verify_a_over_nonce key_a_neq_key_b Let_def del: buffer_from_hex.simps)

text \<open>On the running server a challenge request leaves the ephemeral store as it was,
  and so does a verify request, which is answered 500 when both fields are present.\<close>

lemma auth_step_running:
  "snd (auth_step (auth_redis running) e d r x) = r
   \<and> (\<forall>req jti now. x = Verify req jti now \<longrightarrow> truthy_str (vr_public_key req)
         \<longrightarrow> truthy_str (vr_signature req)
         \<longrightarrow> fst (auth_step (auth_redis running) e d r x) = (500, Error ''internal_error''))"
  by (cases x)
    (simp_all add: challenge_def verify_def client_set_def client_getdel_def
      auth_redis_running Let_def)

text \<open>
  Claim C4. On the running server no verify request reaches \<^verbatim>\<open>GETDEL\<close>: the call
  \<^verbatim>\<open>redis.getdel\<close> on \<^verbatim>\<open>undefined\<close> throws. In any run of challenge and verify
  requests, from any state of the two stores, every verify request with a public key and
  a signature present is answered 500 \<^verbatim>\<open>internal_error\<close>, and the ephemeral store is
  at the end as it was at the start. So no verify accepts a nonce, and a verify for a
  used, expired or unknown nonce is answered 500, not 401.
\<close>

theorem verify_answers_internal_error:
  "snd (auth_run (auth_redis running) e d r ops) = r
   \<and> (\<forall>(x, resp) \<in> set (zip ops (fst (auth_run (auth_redis running) e d r ops))).
        \<forall>req jti now. x = Verify req jti now \<longrightarrow> truthy_str (vr_public_key req)
          \<longrightarrow> truthy_str (vr_signature req) \<longrightarrow> resp = (500, Error ''internal_error''))"
proof (induction ops)
  case Nil
  then show ?case by simp
next
  case (Cons x ops)
  obtain resp r1 where s: "auth_step (auth_redis running) e d r x = (resp, r1)"
    by (cases "auth_step (auth_redis running) e d r x")
  have r1: "r1 = r"
    using auth_step_running [of e d r x, THEN conjunct1] by (simp only: s snd_conv)
  have resp: "\<forall>req jti now. x = Verify req jti now \<longrightarrow> truthy_str (vr_public_key req)
         \<longrightarrow> truthy_str (vr_signature req) \<longrightarrow> resp = (500, Error ''internal_error'')"
    using auth_step_running [of e d r x, THEN conjunct2] by (simp only: s fst_conv)
  show ?case
    using Cons.IH resp by (auto simp: s r1 split: prod.splits)
qed

text \<open>A client asks for a challenge for key C, which no account of the example store
  has, at second 50 and is given a nonce; its verify at second 60 is answered 500. The
  holder of key A asks for a challenge at second 100 and sends a verify with the signature
  of the nonce under key A at second 110: both are answered 500.\<close>

theorem verify_answers_internal_error_witness:
  "auth_run (auth_redis running) demo_env demo_db Map.empty
     [Challenge \<lparr>cr_public_key = Some key_c_hex\<rparr> nonce_1 50,
      Verify \<lparr>vr_public_key = Some key_c_hex, vr_signature = Some sig_a_over_nonce_hex\<rparr>
        jti_1 60,
      Challenge \<lparr>cr_public_key = Some key_a_hex\<rparr> nonce_1 100,
      Verify \<lparr>vr_public_key = Some key_a_hex, vr_signature = Some sig_a_over_nonce_hex\<rparr>
        jti_2 110] =
     ([(200, Nonce nonce_1_hex), (500, Error ''internal_error''),
       (500, Error ''internal_error''), (500, Error ''internal_error'')], Map.empty)
   \<and> snd (auth_run (auth_redis running) demo_env demo_db Map.empty
     [Challenge \<lparr>cr_public_key = Some key_c_hex\<rparr> nonce_1 50,
      Verify \<lparr>vr_public_key = Some key_c_hex, vr_signature = Some sig_a_over_nonce_hex\<rparr>
        jti_1 60,
      Challenge \<lparr>cr_public_key = Some key_a_hex\<rparr> nonce_1 100,
      Verify \<lparr>vr_public_key = Some key_a_hex, vr_signature = Some sig_a_over_nonce_hex\<rparr>
        jti_2 110]) = Map.empty"
proof -
  let ?ops = "[Challenge \<lparr>cr_public_key = Some key_c_hex\<rparr> nonce_1 50,
      Verify \<lparr>vr_public_key = Some key_c_hex, vr_signature = Some sig_a_over_nonce_hex\<rparr>
        jti_1 60,
      Challenge \<lparr>cr_public_key = Some key_a_hex\<rparr> nonce_1 100,
      Verify \<lparr>vr_public_key = Some key_a_hex, vr_signature = Some sig_a_over_nonce_hex\<rparr>
        jti_2 110]"
  have run: "auth_run (auth_redis running) demo_env demo_db Map.empty ?ops =
     ([(200, Nonce nonce_1_hex), (500, Error ''internal_error''),
       (500, Error ''internal_error''), (500, Error ''internal_error'')], Map.empty)"
    by (simp add: challenge_def verify_def client_set_def client_getdel_def
        auth_redis_running truthy_str_def select_account_by_key_def demo_db_def
        demo_hex_nonempty key_a_bytes key_c_bytes key_c_unregistered
        key_c_unregistered [symmetric] nonce_1_text Let_def del: buffer_from_hex.simps)
  have "snd (auth_run (auth_redis running) demo_env demo_db Map.empty ?ops) = Map.empty"
    using verify_answers_internal_error [of demo_env demo_db Map.empty ?ops]
    by (rule conjunct1)
  with run show ?thesis by (intro conjI)
qed

subsection \<open>A verify with a bad signature\<close>

text \<open>The handler with a connected client. When a live challenge is stored for a public
  key and verify is called with a signature that does not verify, the answer is 401
  \<^verbatim>\<open>invalid_signature\<close> and the stored nonce is gone: the handler runs \<^verbatim>\<open>GETDEL\<close> before
  it checks the signature. Every later verify for that key, whatever its signature, is
  answered 401 \<^verbatim>\<open>invalid_or_expired_challenge\<close>, until a new challenge is requested:
  after a new challenge for an existing account a verify with a valid signature over the
  new nonce, within 120 seconds, is accepted.\<close>

lemma connected_verify_consumes_on_bad_signature:
  assumes "pk \<noteq> []" and "sg \<noteq> []" and "n \<noteq> []"
    and "r (''challenge:'' @ pk) = Some (n, expiry)" and "now < expiry"
    and "crypto_sign_verify_detached e (buffer_from_hex sg) (buffer_from_hex n)
           (buffer_from_hex pk) = Some False"
  shows "verify Connected e d r \<lparr>vr_public_key = Some pk, vr_signature = Some sg\<rparr> jti now =
      ((401, Error ''invalid_signature''), r(''challenge:'' @ pk := None))
    \<and> (\<forall>sg' jti' now'. sg' \<noteq> [] \<longrightarrow>
         verify Connected e d (r(''challenge:'' @ pk := None))
           \<lparr>vr_public_key = Some pk, vr_signature = Some sg'\<rparr> jti' now' =
         ((401, Error ''invalid_or_expired_challenge''), r(''challenge:'' @ pk := None)))
    \<and> (\<forall>rnd t1 good jti' t2.
         (\<exists>row \<in> set (accounts d). acc_public_key row = buffer_from_hex pk) \<longrightarrow>
         rnd \<noteq> [] \<longrightarrow> good \<noteq> [] \<longrightarrow> t2 < t1 + 120 \<longrightarrow>
         crypto_sign_verify_detached e (buffer_from_hex good) (buffer_from_hex (to_hex rnd))
           (buffer_from_hex pk) = Some True \<longrightarrow>
         fst (fst (verify Connected e d
                (snd (challenge Connected d (r(''challenge:'' @ pk := None))
                        \<lparr>cr_public_key = Some pk\<rparr> rnd t1))
                \<lparr>vr_public_key = Some pk, vr_signature = Some good\<rparr> jti' t2)) = 200)"
proof (intro conjI allI impI)
  show "verify Connected e d r \<lparr>vr_public_key = Some pk, vr_signature = Some sg\<rparr> jti now =
      ((401, Error ''invalid_signature''), r(''challenge:'' @ pk := None))"
    using assms by (simp add: verify_def client_getdel_def truthy_str_def redis_getdel_def)
next
  fix sg' :: string and jti' :: uuid and now' :: nat
  assume "sg' \<noteq> []"
  then show "verify Connected e d (r(''challenge:'' @ pk := None))
           \<lparr>vr_public_key = Some pk, vr_signature = Some sg'\<rparr> jti' now' =
         ((401, Error ''invalid_or_expired_challenge''), r(''challenge:'' @ pk := None))"
    using assms(1) by (simp add: verify_def client_getdel_def truthy_str_def redis_getdel_def)
next
  fix rnd :: bytes and t1 t2 :: nat and good :: string and jti' :: uuid
  assume acc: "\<exists>row \<in> set (accounts d). acc_public_key row = buffer_from_hex pk"
    and rnd: "rnd \<noteq> []" and good: "good \<noteq> []" and t: "t2 < t1 + 120"
    and ok: "crypto_sign_verify_detached e (buffer_from_hex good) (buffer_from_hex (to_hex rnd))
           (buffer_from_hex pk) = Some True"
  have st: "snd (challenge Connected d (r(''challenge:'' @ pk := None)) \<lparr>cr_public_key = Some pk\<rparr> rnd t1) =
      (r(''challenge:'' @ pk := None))(''challenge:'' @ pk \<mapsto> (to_hex rnd, t1 + 120))"
    using acc assms(1)
    by (auto simp: challenge_def client_set_def truthy_str_def select_account_by_key_def filter_empty_conv
        redis_set_ex_def Let_def)
  have "select_account_by_key d (buffer_from_hex pk) \<noteq> []"
    using acc by (auto simp: select_account_by_key_def filter_empty_conv)
  then show "fst (fst (verify Connected e d
                (snd (challenge Connected d (r(''challenge:'' @ pk := None))
                        \<lparr>cr_public_key = Some pk\<rparr> rnd t1))
                \<lparr>vr_public_key = Some pk, vr_signature = Some good\<rparr> jti' t2)) = 200"
    using assms(1) good t ok to_hex_nonempty [OF rnd]
    unfolding st
    by (simp add: verify_def client_getdel_def truthy_str_def redis_getdel_def Let_def
        split: list.splits)
qed

text \<open>The stand-in verifier accepts the nonce itself as signature; \<^verbatim>\<open>00\<close> is a bad
  signature.\<close>

text \<open>
  Claim C10. On the running server a verify request does not consume the pending
  challenge. When a challenge is stored under \<^verbatim>\<open>challenge:<pubkey>\<close> and verify is called
  for that public key with a signature present, the answer is 500 \<^verbatim>\<open>internal_error\<close>,
  not 401 \<^verbatim>\<open>invalid_signature\<close>, and the stored nonce is still there; a subsequent
  verify for the same key is answered 500 as well, not 401
  \<^verbatim>\<open>invalid_or_expired_challenge\<close>. The call \<^verbatim>\<open>redis.getdel\<close> on \<^verbatim>\<open>undefined\<close> throws
  before the signature is looked at.
\<close>

theorem verify_keeps_pending_challenge:
  assumes "pk \<noteq> []" and "sg \<noteq> []" and "sg' \<noteq> []"
    and "r (''challenge:'' @ pk) = Some (n, expiry)"
  shows "fst (verify (auth_redis running) e d r
               \<lparr>vr_public_key = Some pk, vr_signature = Some sg\<rparr> jti now) =
      (500, Error ''internal_error'')
    \<and> snd (verify (auth_redis running) e d r
               \<lparr>vr_public_key = Some pk, vr_signature = Some sg\<rparr> jti now)
          (''challenge:'' @ pk) = Some (n, expiry)
    \<and> fst (verify (auth_redis running) e d
             (snd (verify (auth_redis running) e d r
                     \<lparr>vr_public_key = Some pk, vr_signature = Some sg\<rparr> jti now))
             \<lparr>vr_public_key = Some pk, vr_signature = Some sg'\<rparr> jti' now') =
      (500, Error ''internal_error'')"
proof -
  have v: "verify (auth_redis running) e d r0
      \<lparr>vr_public_key = Some pk, vr_signature = Some s\<rparr> j t = ((500, Error ''internal_error''), r0)"
    if "s \<noteq> []" for r0 s j t
    using assms(1) that
    by (simp add: verify_def client_getdel_def auth_redis_running truthy_str_def Let_def)
  show ?thesis
    using assms(2-4) by (simp add: v)
qed

text \<open>The nonce of the worked example is stored for key A until second 170. A verify at
  second 60 with a signature that is not one of the nonce, and a verify at second 61 with
  the signature of the nonce under key A, are both answered 500; the nonce stays stored.\<close>

theorem verify_keeps_pending_challenge_witness:
  "fst (verify (auth_redis running) demo_env demo_db
          [''challenge:'' @ key_a_hex \<mapsto> (nonce_1_hex, 170)]
          \<lparr>vr_public_key = Some key_a_hex, vr_signature = Some sig_a_over_b_hex\<rparr> jti_1 60) =
     (500, Error ''internal_error'')
   \<and> snd (verify (auth_redis running) demo_env demo_db
          [''challenge:'' @ key_a_hex \<mapsto> (nonce_1_hex, 170)]
          \<lparr>vr_public_key = Some key_a_hex, vr_signature = Some sig_a_over_b_hex\<rparr> jti_1 60)
       (''challenge:'' @ key_a_hex) = Some (nonce_1_hex, 170)
   \<and> fst (verify (auth_redis running) demo_env demo_db
          (snd (verify (auth_redis running) demo_env demo_db
                  [''challenge:'' @ key_a_hex \<mapsto> (nonce_1_hex, 170)]
                  \<lparr>vr_public_key = Some key_a_hex, vr_signature = Some sig_a_over_b_hex\<rparr>
                  jti_1 60))
          \<lparr>vr_public_key = Some key_a_hex, vr_signature = Some sig_a_over_nonce_hex\<rparr>
          jti_2 61) =
     (500, Error ''internal_error'')"
proof -
  let ?r = "[''challenge:'' @ key_a_hex \<mapsto> (nonce_1_hex, 170 :: nat)]"
  have r: "?r (''challenge:'' @ key_a_hex) = Some (nonce_1_hex, 170)"
    by simp
  show ?thesis
    by (rule verify_keeps_pending_challenge [where r = ?r and pk = key_a_hex
        and sg = sig_a_over_b_hex and sg' = sig_a_over_nonce_hex and n = nonce_1_hex
        and expiry = 170 and e = demo_env and d = demo_db and jti = jti_1 and now = 60
        and jti' = jti_2 and now' = 61,
        OF demo_hex_nonempty(1) demo_hex_nonempty(4) demo_hex_nonempty(5) r])
qed

section \<open>Properties of the message routes\<close>

subsection \<open>The queue row carries nothing of the sender\<close>

text \<open>
  Claim C5. The response of send, the store it leaves and the notification it emits are
  the same whoever the authenticated sender is. When send writes a queue row, the row is
  the fresh identifier, the recipient named in the body, the decoded ciphertext, the
  classification tag of the body (1 by default) and the expiry 30 days ahead; the row type
  \<open>message_row\<close> has no other column.
\<close>

theorem send_sender_anonymity:
  "send e d sender req new_id now = send e d sender' req new_id now
   \<and> (message_queue (fst (snd (send e d sender req new_id now))) = message_queue d
      \<or> (\<exists>rid. uuid_in e (the (sr_recipient_id req)) = Some rid
            \<and> message_queue (fst (snd (send e d sender req new_id now))) =
                message_queue d @
                  [\<lparr>msg_id = new_id, msg_recipient_id = rid,
                    msg_ciphertext = buffer_from_hex (the (sr_ciphertext req)),
                    msg_message_type = (case sr_message_type req of None \<Rightarrow> 1 | Some t \<Rightarrow> t),
                    msg_expires_at = now + message_ttl\<rparr>]))"
  by (auto simp: send_def insert_message_def Let_def
      split: option.splits prod.splits sum.splits if_splits)


text \<open>Account A or account B sends the same body to account B.\<close>

theorem send_sender_anonymity_witness:
  "send demo_env demo_db id_a \<lparr>sr_recipient_id = Some id_b_text, sr_ciphertext = Some ''beef'',
       sr_message_type = None\<rparr> id_m5 100
   = send demo_env demo_db id_b \<lparr>sr_recipient_id = Some id_b_text,
       sr_ciphertext = Some ''beef'', sr_message_type = None\<rparr> id_m5 100
   \<and> send demo_env demo_db id_a \<lparr>sr_recipient_id = Some id_b_text,
       sr_ciphertext = Some ''beef'', sr_message_type = None\<rparr> id_m5 100
     = ((201, MessageId id_m5),
        demo_db\<lparr>message_queue := message_queue demo_db @
           [\<lparr>msg_id = id_m5, msg_recipient_id = id_b, msg_ciphertext = [190, 239],
             msg_message_type = 1, msg_expires_at = 2592100\<rparr>]\<rparr>,
        Some (id_b_text, id_m5))"
proof -
  have t: "id_b_text \<noteq> []"
    by (simp add: id_b_text_def)
  have "send demo_env demo_db id_a \<lparr>sr_recipient_id = Some id_b_text,
       sr_ciphertext = Some ''beef'', sr_message_type = None\<rparr> id_m5 100
     = ((201, MessageId id_m5),
        demo_db\<lparr>message_queue := message_queue demo_db @
           [\<lparr>msg_id = id_m5, msg_recipient_id = id_b, msg_ciphertext = [190, 239],
             msg_message_type = 1, msg_expires_at = 2592100\<rparr>]\<rparr>,
        Some (id_b_text, id_m5))"
    by (simp add: send_def truthy_str_def demo_env_def demo_db_def hex_digit_def t
        demo_uuid_texts demo_ids_distinct account_exists_def insert_message_def int2_ok_def
        message_ttl_def)
  moreover have "send demo_env demo_db id_a \<lparr>sr_recipient_id = Some id_b_text,
       sr_ciphertext = Some ''beef'', sr_message_type = None\<rparr> id_m5 100
   = send demo_env demo_db id_b \<lparr>sr_recipient_id = Some id_b_text,
       sr_ciphertext = Some ''beef'', sr_message_type = None\<rparr> id_m5 100"
    using send_sender_anonymity [of demo_env demo_db id_a
      "\<lparr>sr_recipient_id = Some id_b_text, sr_ciphertext = Some ''beef'',
        sr_message_type = None\<rparr>"
      id_m5 100 id_b]
    by (rule conjunct1)
  ultimately show ?thesis by (intro conjI)
qed

subsection \<open>Drain returns the queue in identifier order\<close>

lemma sorted_take_before_rest:
  assumes "sorted (map f ys)" and "x \<in> set (take n ys)" and "m \<in> set ys" and "m \<notin> set (take n ys)"
  shows "f x \<le> f m"
proof -
  have "m \<in> set (drop n ys)"
    using assms(3,4) by (metis Un_iff append_take_drop_id set_append)
  moreover have "sorted (map f (take n ys) @ map f (drop n ys))"
    using assms(1) by (metis append_take_drop_id map_append)
  ultimately show ?thesis
    using assms(2) by (auto simp: sorted_append)
qed

text \<open>
  Claim C2, as the code has it. Drain answers 200 with at most 100 queued entries of the
  authenticated recipient, in ascending order of their identifiers, each as identifier,
  hex ciphertext and tag, and leaves the store as it was; an entry of the recipient that
  is left out has an identifier at least as large as every entry returned. The
  identifiers are the values of \<^verbatim>\<open>gen_random_uuid()\<close>: the order is that of the
  identifiers, whatever the order of sending.
\<close>

theorem receive_ascending_identifier_order:
  "receive d a =
     ((200, Messages (map (\<lambda>row. \<lparr>mo_id = msg_id row,
                                   mo_ciphertext = to_hex (msg_ciphertext row),
                                   mo_message_type = msg_message_type row\<rparr>)
                          (select_queue d a))), d)
   \<and> length (select_queue d a) =
       min 100 (length (filter (\<lambda>m. msg_recipient_id m = a) (message_queue d)))
   \<and> sorted (map msg_id (select_queue d a))
   \<and> (\<forall>x \<in> set (select_queue d a). x \<in> set (message_queue d) \<and> msg_recipient_id x = a)
   \<and> (\<forall>m \<in> set (message_queue d). msg_recipient_id m = a \<longrightarrow> m \<notin> set (select_queue d a)
        \<longrightarrow> (\<forall>x \<in> set (select_queue d a). msg_id x \<le> msg_id m))"
proof (intro conjI ballI impI)
  let ?q = "filter (\<lambda>m. msg_recipient_id m = a) (message_queue d)"
  let ?s = "sort_key msg_id ?q"
  have sel: "select_queue d a = take 100 ?s"
    by (simp add: select_queue_def)
  show "receive d a =
     ((200, Messages (map (\<lambda>row. \<lparr>mo_id = msg_id row,
                                   mo_ciphertext = to_hex (msg_ciphertext row),
                                   mo_message_type = msg_message_type row\<rparr>)
                          (select_queue d a))), d)"
    by (simp add: receive_def)
  show "length (select_queue d a) = min 100 (length ?q)"
    by (simp add: sel min.commute)
  have srt: "sorted (map msg_id ?s)"
    by (rule sorted_sort_key)
  show "sorted (map msg_id (select_queue d a))"
    unfolding sel using srt by (simp add: take_map [symmetric] sorted_wrt_take)
  {
    fix x assume "x \<in> set (select_queue d a)"
    then have "x \<in> set ?s"
      unfolding sel by (rule in_set_takeD)
    then show "x \<in> set (message_queue d)" and "msg_recipient_id x = a"
      by simp_all
  }
  {
    fix m x
    assume m: "m \<in> set (message_queue d)" "msg_recipient_id m = a" "m \<notin> set (select_queue d a)"
      and x: "x \<in> set (select_queue d a)"
    have "m \<in> set ?s" using m(1,2) by simp
    then show "msg_id x \<le> msg_id m"
      using sorted_take_before_rest [OF srt, of x 100 m] x m(3) unfolding sel by simp
  }
qed


text \<open>Three entries of account B, stored in the order of the identifiers 3333..., 5555...,
  4444..., are returned in the order 3333..., 4444..., 5555....\<close>

theorem receive_ascending_identifier_order_witness:
  "receive
     (demo_db\<lparr>message_queue := message_queue demo_db @
        [\<lparr>msg_id = id_m5, msg_recipient_id = id_b, msg_ciphertext = [170],
          msg_message_type = 1, msg_expires_at = 2592100\<rparr>,
         \<lparr>msg_id = id_m4, msg_recipient_id = id_b, msg_ciphertext = [187],
          msg_message_type = 1, msg_expires_at = 2592101\<rparr>]\<rparr>) id_b =
     ((200, Messages
        [\<lparr>mo_id = id_m3, mo_ciphertext = ''dead'', mo_message_type = 1\<rparr>,
         \<lparr>mo_id = id_m4, mo_ciphertext = ''bb'', mo_message_type = 1\<rparr>,
         \<lparr>mo_id = id_m5, mo_ciphertext = ''aa'', mo_message_type = 1\<rparr>]),
      demo_db\<lparr>message_queue := message_queue demo_db @
        [\<lparr>msg_id = id_m5, msg_recipient_id = id_b, msg_ciphertext = [170],
          msg_message_type = 1, msg_expires_at = 2592100\<rparr>,
         \<lparr>msg_id = id_m4, msg_recipient_id = id_b, msg_ciphertext = [187],
          msg_message_type = 1, msg_expires_at = 2592101\<rparr>]\<rparr>)"
  using receive_ascending_identifier_order [of
     "demo_db\<lparr>message_queue := message_queue demo_db @
        [\<lparr>msg_id = id_m5, msg_recipient_id = id_b, msg_ciphertext = [170],
          msg_message_type = 1, msg_expires_at = 2592100\<rparr>,
         \<lparr>msg_id = id_m4, msg_recipient_id = id_b, msg_ciphertext = [187],
          msg_message_type = 1, msg_expires_at = 2592101\<rparr>]\<rparr>" id_b, THEN conjunct1]
  by (simp add: demo_db_def select_queue_def to_hex_def hex_char_def demo_ids_order)

text \<open>Claim C2 as stated fails: account A sends \<^verbatim>\<open>aa\<close> and then \<^verbatim>\<open>bb\<close> to account B;
  the database draws the identifiers 5555... and then 4444...; drain returns \<^verbatim>\<open>bb\<close>
  before \<^verbatim>\<open>aa\<close>.\<close>

theorem drain_order_is_not_send_order:
  "fst (receive
         (fst (snd (send demo_env
            (fst (snd (send demo_env demo_db id_a
               \<lparr>sr_recipient_id = Some id_b_text, sr_ciphertext = Some ''aa'',
                 sr_message_type = None\<rparr>
               id_m5 100)))
            id_a
            \<lparr>sr_recipient_id = Some id_b_text, sr_ciphertext = Some ''bb'',
              sr_message_type = None\<rparr>
            id_m4 101)))
         id_b) =
     (200, Messages
        [\<lparr>mo_id = id_m3, mo_ciphertext = ''dead'', mo_message_type = 1\<rparr>,
         \<lparr>mo_id = id_m4, mo_ciphertext = ''bb'', mo_message_type = 1\<rparr>,
         \<lparr>mo_id = id_m5, mo_ciphertext = ''aa'', mo_message_type = 1\<rparr>])"
proof -
  have t: "id_b_text \<noteq> []"
    by (simp add: id_b_text_def)
  show ?thesis
    by (simp add: send_def truthy_str_def demo_env_def demo_db_def hex_digit_def t
        demo_uuid_texts demo_ids_distinct demo_ids_order account_exists_def
        insert_message_def int2_ok_def message_ttl_def receive_def select_queue_def
        to_hex_def hex_char_def)
qed

subsection \<open>Only the recipient deletes a queue row\<close>

lemma filter_neg_id: "filter (\<lambda>x. \<not> P x) xs = xs \<longleftrightarrow> filter P xs = []"
  by (induction xs) (auto simp: filter_empty_conv dest: filter_eq_ConsD)

text \<open>
  Claim C7. For an identifier the database accepts as a UUID, delete answers 200 and
  removes the row exactly when the queue holds a row with that identifier whose recipient
  is the authenticated account; for any other caller it answers 404
  \<^verbatim>\<open>message_not_found\<close> and the store, the targeted row included, is unchanged.
\<close>

theorem delete_message_isolation:
  assumes "uuid_in e ident = Some i"
  shows "delete_message e d a ident =
     (if \<exists>m \<in> set (message_queue d). msg_id m = i \<and> msg_recipient_id m = a
      then ((200, Deleted),
            d\<lparr>message_queue :=
                 filter (\<lambda>m. \<not> (msg_id m = i \<and> msg_recipient_id m = a)) (message_queue d)\<rparr>)
      else ((404, Error ''message_not_found''), d))"
proof (cases "\<exists>m \<in> set (message_queue d). msg_id m = i \<and> msg_recipient_id m = a")
  case True
  then have "filter (\<lambda>m. msg_id m = i \<and> msg_recipient_id m = a) (message_queue d) \<noteq> []"
    by (auto simp: filter_empty_conv)
  with True assms show ?thesis
    by (simp add: delete_message_def delete_queue_row_def)
next
  case False
  then have e: "filter (\<lambda>m. msg_id m = i \<and> msg_recipient_id m = a) (message_queue d) = []"
    by (auto simp: filter_empty_conv)
  then have "filter (\<lambda>m. \<not> (msg_id m = i \<and> msg_recipient_id m = a)) (message_queue d)
      = message_queue d"
    by (simp only: filter_neg_id)
  with False e assms show ?thesis
    by (simp add: delete_message_def delete_queue_row_def)
qed


text \<open>The queued message of the example store is addressed to account B: account A gets
  404 and the store keeps the row, account B deletes it.\<close>

theorem delete_message_isolation_witness:
  "uuid_in demo_env id_m3_text = Some id_m3
   \<and> delete_message demo_env demo_db id_a id_m3_text =
       ((404, Error ''message_not_found''), demo_db)
   \<and> message_queue (snd (delete_message demo_env demo_db id_a id_m3_text)) =
       message_queue demo_db
   \<and> delete_message demo_env demo_db id_b id_m3_text =
       ((200, Deleted), demo_db\<lparr>message_queue := []\<rparr>)"
proof -
  have p: "uuid_in demo_env id_m3_text = Some id_m3"
    by (simp add: demo_env_def demo_uuid_texts)
  show ?thesis
    using p delete_message_isolation [OF p, of demo_db id_a]
      delete_message_isolation [OF p, of demo_db id_b]
    by (simp add: demo_db_def demo_ids_distinct)
qed

section \<open>Properties of the key distribution routes\<close>

subsection \<open>Replenishing the pool\<close>

lemma otpk_conflict_append:
  "otpk_conflict (d\<lparr>one_time_prekeys := one_time_prekeys d @ new\<rparr>) a k \<longleftrightarrow>
     otpk_conflict d a k \<or> (\<exists>r \<in> set new. otpk_account_id r = a \<and> otpk_key_id r = k)"
  by (auto simp: otpk_conflict_def)

lemma otpk_conflict_rows:
  "one_time_prekeys d' = one_time_prekeys d @ new \<Longrightarrow>
   otpk_conflict d' a k \<longleftrightarrow>
     otpk_conflict d a k \<or> (\<exists>r \<in> set new. otpk_account_id r = a \<and> otpk_key_id r = k)"
  by (auto simp: otpk_conflict_def)

lemma insert_one_time_prekey_do_nothing:
  assumes "int4_ok k" and "one_time_prekeys_seq d < serial_max" and "account_exists d a"
  shows "insert_one_time_prekey True d a k p =
     (Inr (),
      d\<lparr>one_time_prekeys_seq := one_time_prekeys_seq d + 1,
        one_time_prekeys := one_time_prekeys d @
          (if otpk_conflict d a k then []
           else [\<lparr>otpk_id = one_time_prekeys_seq d + 1, otpk_account_id = a, otpk_key_id = k,
                  otpk_public_key = p\<rparr>])\<rparr>)"
  using assms by (simp add: insert_one_time_prekey_def Let_def)

lemma replenish_loop:
  assumes "account_exists d a" and "\<forall>k \<in> set ks. int4_ok (pki_key_id k)"
    and "one_time_prekeys_seq d + length ks \<le> serial_max"
  shows "\<exists>d' new. insert_one_time_prekeys True d a ks = (Inr (), d')
    \<and> accounts d' = accounts d \<and> signed_prekeys d' = signed_prekeys d
    \<and> message_queue d' = message_queue d
    \<and> one_time_prekeys_seq d' = one_time_prekeys_seq d + length ks
    \<and> one_time_prekeys d' = one_time_prekeys d @ new
    \<and> (\<forall>row \<in> set new. otpk_account_id row = a \<and> \<not> otpk_conflict d a (otpk_key_id row)
          \<and> otpk_cols row \<in> set (map (prekey_cols a) ks))
    \<and> distinct (map otpk_key_id new)
    \<and> (\<forall>k \<in> set ks. otpk_conflict d' a (pki_key_id k))"
  using assms
proof (induction ks arbitrary: d)
  case Nil
  then show ?case by simp
next
  case (Cons k ks)
  let ?row = "\<lparr>otpk_id = one_time_prekeys_seq d + 1, otpk_account_id = a,
      otpk_key_id = pki_key_id k, otpk_public_key = buffer_from_hex (pki_public_key k)\<rparr>"
  let ?ins = "if otpk_conflict d a (pki_key_id k) then [] else [?row]"
  let ?d1 = "d\<lparr>one_time_prekeys_seq := one_time_prekeys_seq d + 1,
      one_time_prekeys := one_time_prekeys d @ ?ins\<rparr>"
  have k: "int4_ok (pki_key_id k)" and lt: "one_time_prekeys_seq d < serial_max"
    using Cons.prems by simp_all
  have step: "insert_one_time_prekey True d a (pki_key_id k) (buffer_from_hex (pki_public_key k))
      = (Inr (), ?d1)"
    by (rule insert_one_time_prekey_do_nothing [OF k lt Cons.prems(1)])
  have c1: "otpk_conflict ?d1 a (pki_key_id k)"
    by (simp add: otpk_conflict_def)
  have mono: "otpk_conflict d a j \<Longrightarrow> otpk_conflict ?d1 a j" for j
    by (auto simp: otpk_conflict_def)
  have "account_exists ?d1 a" "\<forall>k \<in> set ks. int4_ok (pki_key_id k)"
    "one_time_prekeys_seq ?d1 + length ks \<le> serial_max"
    using Cons.prems by (simp_all add: account_exists_def)
  from Cons.IH [OF this] obtain d' new where
    run: "insert_one_time_prekeys True ?d1 a ks = (Inr (), d')"
    and same: "accounts d' = accounts ?d1" "signed_prekeys d' = signed_prekeys ?d1"
      "message_queue d' = message_queue ?d1"
    and seq: "one_time_prekeys_seq d' = one_time_prekeys_seq ?d1 + length ks"
    and rows: "one_time_prekeys d' = one_time_prekeys ?d1 @ new"
    and new: "\<forall>row \<in> set new. otpk_account_id row = a \<and> \<not> otpk_conflict ?d1 a (otpk_key_id row)
          \<and> otpk_cols row \<in> set (map (prekey_cols a) ks)"
    and dist: "distinct (map otpk_key_id new)"
    and pres: "\<forall>k \<in> set ks. otpk_conflict d' a (pki_key_id k)"
    by blast
  have r1: "insert_one_time_prekeys True d a (k # ks) = (Inr (), d')"
    using step run by simp
  have r2: "one_time_prekeys d' = one_time_prekeys d @ (?ins @ new)"
    using rows by simp
  have fresh: "\<forall>row \<in> set new. otpk_key_id row \<noteq> pki_key_id k"
    using new c1 by auto
  have r3: "\<forall>row \<in> set (?ins @ new). otpk_account_id row = a
      \<and> \<not> otpk_conflict d a (otpk_key_id row)
      \<and> otpk_cols row \<in> set (map (prekey_cols a) (k # ks))"
    using new mono by (auto simp: otpk_cols_def prekey_cols_def)
  have r4: "distinct (map otpk_key_id (?ins @ new))"
    using dist fresh by auto
  have "otpk_conflict d' a (pki_key_id k)"
    using c1 rows by (auto simp: otpk_conflict_def)
  then have r5: "\<forall>j \<in> set (k # ks). otpk_conflict d' a (pki_key_id j)"
    using pres by simp
  have r6: "accounts d' = accounts d" "signed_prekeys d' = signed_prekeys d"
    "message_queue d' = message_queue d"
    "one_time_prekeys_seq d' = one_time_prekeys_seq d + length (k # ks)"
    using same seq by simp_all
  show ?case
    using r1 r2 r3 r4 r5 r6 by blast
qed


lemma otpk_wf_cong:
  "one_time_prekeys d' = one_time_prekeys d \<Longrightarrow>
   one_time_prekeys_seq d \<le> one_time_prekeys_seq d' \<Longrightarrow> otpk_wf d \<Longrightarrow> otpk_wf d'"
  by (auto simp: otpk_wf_def list_all_iff)

lemma otpk_wf_insert_one:
  assumes "otpk_wf d"
  shows "otpk_wf (snd (insert_one_time_prekey b d a k p))"
proof -
  let ?n = "one_time_prekeys_seq d + 1"
  let ?row = "\<lparr>otpk_id = ?n, otpk_account_id = a, otpk_key_id = k, otpk_public_key = p\<rparr>"
  have ids: "?n \<notin> otpk_id ` set (one_time_prekeys d)"
    using assms by (auto simp: otpk_wf_def list_all_iff)
  have "\<not> otpk_conflict d a k \<Longrightarrow>
      (a, k) \<notin> (\<lambda>r. (otpk_account_id r, otpk_key_id r)) ` set (one_time_prekeys d)"
    by (auto simp: otpk_conflict_def)
  then have new: "\<not> otpk_conflict d a k \<Longrightarrow>
      otpk_wf (d\<lparr>one_time_prekeys_seq := ?n, one_time_prekeys := one_time_prekeys d @ [?row]\<rparr>)"
    using assms ids by (auto simp: otpk_wf_def list_all_iff)
  have old: "otpk_wf (d\<lparr>one_time_prekeys_seq := ?n\<rparr>)"
    using assms by (auto simp: otpk_wf_def list_all_iff)
  show ?thesis
    using assms new old by (simp add: insert_one_time_prekey_def Let_def)
qed

lemma otpk_wf_insert_loop:
  "otpk_wf d \<Longrightarrow> otpk_wf (snd (insert_one_time_prekeys b d a ks))"
proof (induction ks arbitrary: d)
  case Nil
  then show ?case by simp
next
  case (Cons k ks)
  obtain res d1 where s: "insert_one_time_prekey b d a (pki_key_id k)
      (buffer_from_hex (pki_public_key k)) = (res, d1)"
    by (cases "insert_one_time_prekey b d a (pki_key_id k) (buffer_from_hex (pki_public_key k))")
  have "otpk_wf d1"
    using otpk_wf_insert_one [OF Cons.prems, of b a "pki_key_id k"
        "buffer_from_hex (pki_public_key k)"] s by simp
  then have "otpk_wf (snd (insert_one_time_prekeys b d1 a ks))"
    by (rule Cons.IH)
  then show ?case
    using s Cons.prems \<open>otpk_wf d1\<close> by (cases res) simp_all
qed

lemma count_otpk_append:
  "one_time_prekeys d' = one_time_prekeys d @ new \<Longrightarrow>
   \<forall>row \<in> set new. otpk_account_id row = a \<Longrightarrow>
   count_otpk d' a = count_otpk d a + length new"
  by (simp add: count_otpk_def)

text \<open>
  Claim C8, as the code has it. Take an authenticated replenish request with 1 to 200
  entries, for an account that exists, with key identifiers in the range of the
  \<^verbatim>\<open>INTEGER\<close> column and room left in the row sequence. The answer is 200 with the
  number of entries of the request and the new pool total. The rows already in the table
  are unchanged; the rows added belong to the account, each takes key identifier and key
  from an entry of the request whose key identifier was not in the account's pool, and no
  key identifier is added twice. Afterwards every key identifier of the request is in the
  pool. Entries whose (account, key id) already exists add nothing: when all do, the table
  is as before, and sending the same request again leaves the table as the first request
  left it. The constraints of the table are kept.
\<close>

theorem replenish_upserts_idempotently:
  assumes "ks \<noteq> []" and "length ks \<le> 200" and "account_exists d a"
    and "\<forall>k \<in> set ks. int4_ok (pki_key_id k)"
    and "one_time_prekeys_seq d + length ks \<le> serial_max"
  shows "\<exists>d' new.
      put_prekeys d a \<lparr>pr_one_time_prekeys = Some ks\<rparr> =
        ((200, Uploaded (length ks) (count_otpk d a + length new)), d')
    \<and> count_otpk d' a = count_otpk d a + length new
    \<and> one_time_prekeys d' = one_time_prekeys d @ new
    \<and> (\<forall>row \<in> set new. otpk_account_id row = a \<and> \<not> otpk_conflict d a (otpk_key_id row)
          \<and> otpk_cols row \<in> set (map (prekey_cols a) ks))
    \<and> distinct (map otpk_key_id new)
    \<and> (\<forall>k \<in> set ks. otpk_conflict d' a (pki_key_id k))
    \<and> ((\<forall>k \<in> set ks. otpk_conflict d a (pki_key_id k)) \<longrightarrow> new = [])
    \<and> accounts d' = accounts d \<and> signed_prekeys d' = signed_prekeys d
    \<and> message_queue d' = message_queue d
    \<and> (otpk_wf d \<longrightarrow> otpk_wf d')
    \<and> (one_time_prekeys_seq d + 2 * length ks \<le> serial_max \<longrightarrow>
         fst (put_prekeys d' a \<lparr>pr_one_time_prekeys = Some ks\<rparr>) =
           (200, Uploaded (length ks) (count_otpk d' a))
         \<and> one_time_prekeys (snd (put_prekeys d' a \<lparr>pr_one_time_prekeys = Some ks\<rparr>)) =
             one_time_prekeys d')"
proof -
  from replenish_loop [OF assms(3,4,5)] obtain d' new where
    run: "insert_one_time_prekeys True d a ks = (Inr (), d')"
    and same: "accounts d' = accounts d" "signed_prekeys d' = signed_prekeys d"
      "message_queue d' = message_queue d"
    and seq: "one_time_prekeys_seq d' = one_time_prekeys_seq d + length ks"
    and rows: "one_time_prekeys d' = one_time_prekeys d @ new"
    and new: "\<forall>row \<in> set new. otpk_account_id row = a \<and> \<not> otpk_conflict d a (otpk_key_id row)
          \<and> otpk_cols row \<in> set (map (prekey_cols a) ks)"
    and dist: "distinct (map otpk_key_id new)"
    and pres: "\<forall>k \<in> set ks. otpk_conflict d' a (pki_key_id k)"
    by blast
  have cnt: "count_otpk d' a = count_otpk d a + length new"
    using rows new by (intro count_otpk_append) auto
  have resp: "put_prekeys d a \<lparr>pr_one_time_prekeys = Some ks\<rparr> =
        ((200, Uploaded (length ks) (count_otpk d a + length new)), d')"
    using assms(1,2) run cnt by (simp add: put_prekeys_def)
  have noop: "new = []" if all: "\<forall>k \<in> set ks. otpk_conflict d a (pki_key_id k)"
  proof (rule ccontr)
    assume "new \<noteq> []"
    then obtain row where row: "row \<in> set new" by (cases new) auto
    with new obtain k where "k \<in> set ks" "otpk_key_id row = pki_key_id k"
      by (auto simp: otpk_cols_def prekey_cols_def)
    with all new row show False by auto
  qed
  have wf: "otpk_wf d'" if "otpk_wf d"
    using otpk_wf_insert_loop [OF that, of True a ks] run by simp
  have again: "fst (put_prekeys d' a \<lparr>pr_one_time_prekeys = Some ks\<rparr>) =
           (200, Uploaded (length ks) (count_otpk d' a))
         \<and> one_time_prekeys (snd (put_prekeys d' a \<lparr>pr_one_time_prekeys = Some ks\<rparr>)) =
             one_time_prekeys d'"
    if room: "one_time_prekeys_seq d + 2 * length ks \<le> serial_max"
  proof -
    have a': "account_exists d' a"
      using assms(3) same(1) by (simp add: account_exists_def)
    have room': "one_time_prekeys_seq d' + length ks \<le> serial_max"
      using room seq by simp
    from replenish_loop [OF a' assms(4) room'] obtain d2 new2 where
      run2: "insert_one_time_prekeys True d' a ks = (Inr (), d2)"
      and rows2: "one_time_prekeys d2 = one_time_prekeys d' @ new2"
      and new2: "\<forall>row \<in> set new2. otpk_account_id row = a
          \<and> \<not> otpk_conflict d' a (otpk_key_id row)
          \<and> otpk_cols row \<in> set (map (prekey_cols a) ks)"
      by blast
    have "new2 = []"
    proof (rule ccontr)
      assume "new2 \<noteq> []"
      then obtain row where row: "row \<in> set new2" by (cases new2) auto
      with new2 obtain k where "k \<in> set ks" "otpk_key_id row = pki_key_id k"
        by (auto simp: otpk_cols_def prekey_cols_def)
      with pres new2 row show False by auto
    qed
    with rows2 have r2: "one_time_prekeys d2 = one_time_prekeys d'" by simp
    then have "count_otpk d2 a = count_otpk d' a"
      by (simp add: count_otpk_def)
    with assms(1,2) run2 r2 show ?thesis
      by (simp add: put_prekeys_def)
  qed
  show ?thesis
    using resp cnt rows new dist pres noop same wf again by blast
qed

text \<open>Account A of the example store holds key identifier 7. Uploading 7, 8 and 8
  again leaves the row of 7 as it was, adds one row for 8, and reports 3 uploaded and a
  pool of 2.\<close>

theorem replenish_upserts_idempotently_witness:
  "put_prekeys demo_db id_a
     \<lparr>pr_one_time_prekeys = Some [\<lparr>pki_key_id = 7, pki_public_key = key_c_hex\<rparr>,
                                  \<lparr>pki_key_id = 8, pki_public_key = key_b_hex\<rparr>,
                                  \<lparr>pki_key_id = 8, pki_public_key = key_a_hex\<rparr>]\<rparr> =
     ((200, Uploaded 3 2),
      demo_db\<lparr>one_time_prekeys_seq := 4,
        one_time_prekeys :=
          [\<lparr>otpk_id = 1, otpk_account_id = id_a, otpk_key_id = 7, otpk_public_key = [9]\<rparr>,
           \<lparr>otpk_id = 3, otpk_account_id = id_a, otpk_key_id = 8,
             otpk_public_key = key_b\<rparr>]\<rparr>)
   \<and> fst (fst (put_prekeys demo_db id_a
     \<lparr>pr_one_time_prekeys = Some [\<lparr>pki_key_id = 7, pki_public_key = key_c_hex\<rparr>,
                                  \<lparr>pki_key_id = 8, pki_public_key = key_b_hex\<rparr>,
                                  \<lparr>pki_key_id = 8, pki_public_key = key_a_hex\<rparr>]\<rparr>)) = 200"
proof -
  let ?ks = "[\<lparr>pki_key_id = 7, pki_public_key = key_c_hex\<rparr>,
              \<lparr>pki_key_id = 8, pki_public_key = key_b_hex\<rparr>,
              \<lparr>pki_key_id = 8, pki_public_key = key_a_hex\<rparr>]"
  have h1: "?ks \<noteq> []" and h2: "length ?ks \<le> 200"
    by simp_all
  have h3: "account_exists demo_db id_a"
    by (simp add: account_exists_def demo_db_def)
  have h4: "\<forall>k \<in> set ?ks. int4_ok (pki_key_id k)"
    by (simp add: int4_ok_def)
  have h5: "one_time_prekeys_seq demo_db + length ?ks \<le> serial_max"
    by (simp add: demo_db_def serial_max_def)
  have st: "fst (fst (put_prekeys demo_db id_a \<lparr>pr_one_time_prekeys = Some ?ks\<rparr>)) = 200"
    using replenish_upserts_idempotently [OF h1 h2 h3 h4 h5]
    by (elim exE conjE) (simp only: fst_conv)
  have "put_prekeys demo_db id_a \<lparr>pr_one_time_prekeys = Some ?ks\<rparr> =
     ((200, Uploaded 3 2),
      demo_db\<lparr>one_time_prekeys_seq := 4,
        one_time_prekeys :=
          [\<lparr>otpk_id = 1, otpk_account_id = id_a, otpk_key_id = 7, otpk_public_key = [9]\<rparr>,
           \<lparr>otpk_id = 3, otpk_account_id = id_a, otpk_key_id = 8,
             otpk_public_key = key_b\<rparr>]\<rparr>)"
    by (simp add: put_prekeys_def insert_one_time_prekey_def Let_def int4_ok_def serial_max_def
        otpk_conflict_def account_exists_def count_otpk_def demo_db_def key_a_bytes
        key_b_bytes key_c_bytes del: buffer_from_hex.simps)
  with st show ?thesis by (intro conjI)
qed

text \<open>Claim C8 as stated fails: account A uploads key identifiers 8 and 2147483648. The
  second insert fails, the number being outside the \<^verbatim>\<open>INTEGER\<close> column; the answer is
  500 \<^verbatim>\<open>internal_error\<close> without counts, the second entry is not in the pool, and the
  row of the first entry stays.\<close>

theorem replenish_key_id_out_of_range:
  "put_prekeys demo_db id_a
     \<lparr>pr_one_time_prekeys = Some [\<lparr>pki_key_id = 8, pki_public_key = key_c_hex\<rparr>,
                                  \<lparr>pki_key_id = 2147483648, pki_public_key = key_b_hex\<rparr>]\<rparr> =
     ((500, Error ''internal_error''),
      demo_db\<lparr>one_time_prekeys_seq := 2,
        one_time_prekeys :=
          [\<lparr>otpk_id = 1, otpk_account_id = id_a, otpk_key_id = 7, otpk_public_key = [9]\<rparr>,
           \<lparr>otpk_id = 2, otpk_account_id = id_a, otpk_key_id = 8,
             otpk_public_key = key_c\<rparr>]\<rparr>)"
  by (simp add: put_prekeys_def insert_one_time_prekey_def Let_def int4_ok_def serial_max_def
      otpk_conflict_def account_exists_def count_otpk_def demo_db_def key_b_bytes key_c_bytes
      del: buffer_from_hex.simps)

subsection \<open>Fetching a bundle consumes the oldest one-time prekey\<close>

lemma sort_key_head_least:
  assumes "sort_key f xs = y # ys"
  shows "y \<in> set xs \<and> (\<forall>x \<in> set xs. f y \<le> f x)"
proof -
  have "set (sort_key f xs) = set xs" by simp
  then have s: "set xs = insert y (set ys)" using assms by simp
  have "sorted (map f (sort_key f xs))" by (rule sorted_sort_key)
  then have "\<forall>x \<in> set ys. f y \<le> f x" using assms by simp
  with s show ?thesis by auto
qed

lemma sort_key_Nil_iff: "sort_key f xs = [] \<longleftrightarrow> xs = []"
  by (metis length_sort list.size(3) length_0_conv)

lemma filter_id_singleton:
  assumes "distinct (map f xs)" and "x \<in> set xs"
  shows "filter (\<lambda>r. f r = f x) xs = [x]"
  using assms
proof (induction xs)
  case Nil
  then show ?case by simp
next
  case (Cons z zs)
  show ?case
  proof (cases "z = x")
    case True
    have "f x \<notin> f ` set zs"
      using Cons.prems(1) True by simp
    then have "\<forall>r \<in> set zs. f r \<noteq> f x"
      by (metis imageI)
    then have "filter (\<lambda>r. f r = f x) zs = []"
      by (simp add: filter_empty_conv)
    with True show ?thesis by simp
  next
    case False
    with Cons.prems have "x \<in> set zs" "f z \<noteq> f x" by auto
    with Cons show ?thesis by simp
  qed
qed

lemma delete_oldest_otpk_empty:
  assumes "filter (\<lambda>r. otpk_account_id r = a) (one_time_prekeys d) = []"
  shows "delete_oldest_otpk d a = ([], d)"
  using assms by (simp add: delete_oldest_otpk_def select_oldest_otpk_id_def)

lemma delete_oldest_otpk_row:
  assumes "otpk_wf d"
    and "filter (\<lambda>r. otpk_account_id r = a) (one_time_prekeys d) \<noteq> []"
  shows "\<exists>row \<in> set (one_time_prekeys d). otpk_account_id row = a
      \<and> (\<forall>r \<in> set (one_time_prekeys d). otpk_account_id r = a \<longrightarrow> otpk_id row \<le> otpk_id r)
      \<and> delete_oldest_otpk d a =
          ([row], d\<lparr>one_time_prekeys :=
                     filter (\<lambda>r. otpk_id r \<noteq> otpk_id row) (one_time_prekeys d)\<rparr>)"
proof -
  let ?pool = "filter (\<lambda>r. otpk_account_id r = a) (one_time_prekeys d)"
  obtain row rest where srt: "sort_key otpk_id ?pool = row # rest"
    using assms(2) by (cases "sort_key otpk_id ?pool") (simp_all add: sort_key_Nil_iff)
  from sort_key_head_least [OF srt] have row: "row \<in> set ?pool"
    and least: "\<forall>r \<in> set ?pool. otpk_id row \<le> otpk_id r"
    by simp_all
  have mem: "row \<in> set (one_time_prekeys d)" and acc: "otpk_account_id row = a"
    using row by simp_all
  have "distinct (map otpk_id (one_time_prekeys d))"
    using assms(1) by (simp add: otpk_wf_def)
  then have one: "filter (\<lambda>r. otpk_id r = otpk_id row) (one_time_prekeys d) = [row]"
    using mem by (rule filter_id_singleton)
  have "delete_oldest_otpk d a =
      ([row], d\<lparr>one_time_prekeys :=
                 filter (\<lambda>r. otpk_id r \<noteq> otpk_id row) (one_time_prekeys d)\<rparr>)"
    using srt one by (simp add: delete_oldest_otpk_def select_oldest_otpk_id_def)
  with mem acc least show ?thesis by auto
qed


lemma distinct_map_eq:
  assumes "distinct (map g xs)" and "x \<in> set xs" and "y \<in> set xs" and "g x = g y"
  shows "x = y"
  using assms by (meson distinct_map inj_onD)

lemma otpk_wf_filter: "otpk_wf d \<Longrightarrow> otpk_wf (d\<lparr>one_time_prekeys := filter P (one_time_prekeys d)\<rparr>)"
  by (auto simp: otpk_wf_def list_all_iff distinct_map_filter)

lemma otpk_wf_delete_oldest: "otpk_wf d \<Longrightarrow> otpk_wf (snd (delete_oldest_otpk d a))"
  by (auto simp: delete_oldest_otpk_def otpk_wf_filter split: option.splits)

lemma delete_oldest_otpk_subset:
  "accounts (snd (delete_oldest_otpk d a)) = accounts d
   \<and> set (one_time_prekeys (snd (delete_oldest_otpk d a))) \<subseteq> set (one_time_prekeys d)"
  by (auto simp: delete_oldest_otpk_def split: option.splits)

lemma get_keys_store:
  "snd (get_keys e t d tgt) =
     (case uuid_in e tgt of
        None \<Rightarrow> d
      | Some a \<Rightarrow>
          if filter (\<lambda>r. acc_id r = a) (accounts d) = []
             \<or> filter (\<lambda>r. spk_account_id r = a) (signed_prekeys d) = []
          then d else snd (delete_oldest_otpk d a))"
  by (auto simp: get_keys_def Let_def split: option.splits list.splits prod.splits)

lemma get_keys_Keys:
  assumes "uuid_in e target = Some a" and "get_keys e t d target = ((st, Keys b n f), d1)"
  shows "st = 200 \<and> account_exists d a \<and> d1 = snd (delete_oldest_otpk d a)
    \<and> n = count_otpk d1 a
    \<and> bu_one_time_prekey b =
        (case fst (delete_oldest_otpk d a) of
           [] \<Rightarrow> None
         | row # rows \<Rightarrow> Some (otpk_key_id row, to_hex (otpk_public_key row)))"
proof -
  have ex: "filter (\<lambda>r. acc_id r = a) (accounts d) \<noteq> [] \<Longrightarrow> account_exists d a"
    by (auto simp: account_exists_def filter_empty_conv)
  show ?thesis
    using assms ex
    by (auto simp: get_keys_def Let_def split: option.splits list.splits prod.splits)
qed


lemma get_keys_inv:
  assumes "otpk_wf d" and "account_exists d a" and "\<not> otpk_conflict d a k"
  shows "otpk_wf (snd (get_keys e t d tgt)) \<and> account_exists (snd (get_keys e t d tgt)) a
    \<and> \<not> otpk_conflict (snd (get_keys e t d tgt)) a k"
proof -
  have "otpk_wf (snd (delete_oldest_otpk d a')) \<and> account_exists (snd (delete_oldest_otpk d a')) a
      \<and> \<not> otpk_conflict (snd (delete_oldest_otpk d a')) a k" for a'
    using assms otpk_wf_delete_oldest [of d a'] delete_oldest_otpk_subset [of d a']
    by (auto simp: account_exists_def otpk_conflict_def)
  with assms show ?thesis
    by (simp add: get_keys_store split: option.splits)
qed

lemma get_keys_not_consumed_again:
  assumes "otpk_wf d" and "\<not> otpk_conflict d a k" and "uuid_in e tgt = Some a"
  shows "fetched_key (fst (get_keys e t d tgt)) \<noteq> Some k"
proof (cases "get_keys e t d tgt")
  case (Pair resp d1)
  obtain st bd where resp: "resp = (st, bd)" by (cases resp)
  show ?thesis
  proof (cases bd)
    case (Keys b n f)
    note gk = get_keys_Keys [OF assms(3) Pair [unfolded resp Keys]]
    show ?thesis
    proof (cases "filter (\<lambda>r. otpk_account_id r = a) (one_time_prekeys d) = []")
      case True
      then show ?thesis
        using gk Pair resp Keys by (simp add: delete_oldest_otpk_empty)
    next
      case False
      from delete_oldest_otpk_row [OF assms(1) False] obtain row where
        row: "row \<in> set (one_time_prekeys d)" "otpk_account_id row = a"
        and del: "fst (delete_oldest_otpk d a) = [row]"
        by auto
      have "otpk_key_id row \<noteq> k"
        using row assms(2) by (auto simp: otpk_conflict_def)
      then show ?thesis
        using gk del Pair resp Keys by simp
    qed
  qed (simp_all add: Pair resp)
qed

lemma insert_one_time_prekey_inv:
  assumes "account_exists d a" and "\<not> otpk_conflict d a k" and "a' \<noteq> a \<or> k' \<noteq> k"
  shows "account_exists (snd (insert_one_time_prekey b d a' k' p)) a
    \<and> \<not> otpk_conflict (snd (insert_one_time_prekey b d a' k' p)) a k"
  using assms
  by (auto simp: insert_one_time_prekey_def Let_def account_exists_def otpk_conflict_def)

lemma insert_one_time_prekeys_inv:
  assumes "account_exists d a" and "\<not> otpk_conflict d a k"
    and "a' \<noteq> a \<or> k \<notin> set (map pki_key_id ks)"
  shows "account_exists (snd (insert_one_time_prekeys b d a' ks)) a
    \<and> \<not> otpk_conflict (snd (insert_one_time_prekeys b d a' ks)) a k"
  using assms
proof (induction ks arbitrary: d)
  case Nil
  then show ?case by simp
next
  case (Cons j ks)
  obtain res d1 where s: "insert_one_time_prekey b d a' (pki_key_id j)
      (buffer_from_hex (pki_public_key j)) = (res, d1)"
    by (cases "insert_one_time_prekey b d a' (pki_key_id j) (buffer_from_hex (pki_public_key j))")
  have "a' \<noteq> a \<or> pki_key_id j \<noteq> k"
    using Cons.prems(3) by auto
  from insert_one_time_prekey_inv [OF Cons.prems(1,2) this, of b "buffer_from_hex (pki_public_key j)"]
  have d1: "account_exists d1 a" "\<not> otpk_conflict d1 a k"
    using s by simp_all
  have "a' \<noteq> a \<or> k \<notin> set (map pki_key_id ks)"
    using Cons.prems(3) by auto
  from Cons.IH [OF d1 this] d1 s show ?case
    by (cases res) simp_all
qed

lemma put_prekeys_inv:
  assumes "otpk_wf d" and "account_exists d a" and "\<not> otpk_conflict d a k"
    and "\<not> reuploads a k (Replenish a' req)"
  shows "otpk_wf (snd (put_prekeys d a' req)) \<and> account_exists (snd (put_prekeys d a' req)) a
    \<and> \<not> otpk_conflict (snd (put_prekeys d a' req)) a k"
proof (cases "pr_one_time_prekeys req")
  case None
  with assms show ?thesis by (simp add: put_prekeys_def)
next
  case (Some ks)
  have "a' \<noteq> a \<or> k \<notin> set (map pki_key_id ks)"
    using assms(4) Some by auto
  from insert_one_time_prekeys_inv [OF assms(2,3) this, of True]
    otpk_wf_insert_loop [OF assms(1), of True a' ks]
  show ?thesis
    using assms(1-3) Some
    by (cases "insert_one_time_prekeys True d a' ks")
      (auto simp: put_prekeys_def split: sum.splits)
qed


lemma insert_signed_prekey_otpk:
  "one_time_prekeys (snd (insert_signed_prekey d a k p s now)) = one_time_prekeys d
   \<and> one_time_prekeys_seq (snd (insert_signed_prekey d a k p s now)) = one_time_prekeys_seq d
   \<and> accounts (snd (insert_signed_prekey d a k p s now)) = accounts d"
  by (simp add: insert_signed_prekey_def Let_def)

lemma register_store:
  "snd (register e d req new_id now) = d
   \<or> (\<exists>d2 pkb rid ks. account_insert_ok d pkb rid new_id
         \<and> accounts d2 = accounts d @
              [\<lparr>acc_id = new_id, acc_public_key = pkb, acc_registration_id = rid,
                acc_created_at = now\<rparr>]
         \<and> one_time_prekeys d2 = one_time_prekeys d
         \<and> one_time_prekeys_seq d2 = one_time_prekeys_seq d
         \<and> (snd (register e d req new_id now) = d2
            \<or> snd (register e d req new_id now) = snd (insert_one_time_prekeys False d2 new_id ks)))"
proof (cases "snd (register e d req new_id now) = d")
  case True
  then show ?thesis by simp
next
  case False
  let ?pkb = "buffer_from_hex (the (rr_public_key req))"
  let ?rid = "the (rr_registration_id req)"
  let ?spk = "the (rr_signed_prekey req)"
  let ?ks = "the (rr_one_time_prekeys req)"
  let ?d1 = "d\<lparr>accounts := accounts d @
      [\<lparr>acc_id = new_id, acc_public_key = ?pkb, acc_registration_id = ?rid,
        acc_created_at = now\<rparr>]\<rparr>"
  let ?s2 = "insert_signed_prekey ?d1 new_id (spi_key_id ?spk)
      (buffer_from_hex (spi_public_key ?spk)) (buffer_from_hex (spi_signature ?spk)) now"
  have ok: "account_insert_ok d ?pkb ?rid new_id"
  proof (rule ccontr)
    assume "\<not> account_insert_ok d ?pkb ?rid new_id"
    then have "snd (register e d req new_id now) = d"
      by (simp add: register_def Let_def insert_account_shape split: option.splits bool.splits)
    with False show False by simp
  qed
  have reg: "snd (register e d req new_id now) = snd ?s2
      \<or> snd (register e d req new_id now) = snd (insert_one_time_prekeys False (snd ?s2) new_id ?ks)"
    using False ok
    by (cases ?s2; cases "fst ?s2"; cases "insert_one_time_prekeys False (snd ?s2) new_id ?ks";
        cases "fst (insert_one_time_prekeys False (snd ?s2) new_id ?ks)")
      (auto simp: register_def Let_def insert_account_shape split: option.splits bool.splits)
  have "accounts (snd ?s2) = accounts d @
      [\<lparr>acc_id = new_id, acc_public_key = ?pkb, acc_registration_id = ?rid,
        acc_created_at = now\<rparr>]"
    "one_time_prekeys (snd ?s2) = one_time_prekeys d"
    "one_time_prekeys_seq (snd ?s2) = one_time_prekeys_seq d"
    by (simp_all add: insert_signed_prekey_otpk)
  with ok reg show ?thesis by blast
qed

lemma register_inv:
  assumes "otpk_wf d" and "account_exists d a" and "\<not> otpk_conflict d a k"
  shows "otpk_wf (snd (register e d req new_id now))
    \<and> account_exists (snd (register e d req new_id now)) a
    \<and> \<not> otpk_conflict (snd (register e d req new_id now)) a k"
proof -
  from register_store [of e d req new_id now]
  consider "snd (register e d req new_id now) = d"
    | d2 pkb rid ks where "account_insert_ok d pkb rid new_id"
        "accounts d2 = accounts d @
              [\<lparr>acc_id = new_id, acc_public_key = pkb, acc_registration_id = rid,
                acc_created_at = now\<rparr>]"
        "one_time_prekeys d2 = one_time_prekeys d"
        "one_time_prekeys_seq d2 = one_time_prekeys_seq d"
        "snd (register e d req new_id now) = d2
            \<or> snd (register e d req new_id now) = snd (insert_one_time_prekeys False d2 new_id ks)"
    by blast
  then show ?thesis
  proof cases
    case 1
    with assms show ?thesis by simp
  next
    case 2
    have ne: "new_id \<noteq> a"
      using 2(1) assms(2) by (auto simp: account_insert_ok_def account_exists_def)
    have wf2: "otpk_wf d2"
      using otpk_wf_cong [of d2 d] 2(3,4) assms(1) by simp
    have ex2: "account_exists d2 a"
      using assms(2) 2(2) by (auto simp: account_exists_def)
    have nc2: "\<not> otpk_conflict d2 a k"
      using assms(3) 2(3) by (simp add: otpk_conflict_def)
    have "new_id \<noteq> a \<or> k \<notin> set (map pki_key_id ks)"
      using ne by simp
    from insert_one_time_prekeys_inv [OF ex2 nc2 this, of False]
      otpk_wf_insert_loop [OF wf2, of False new_id ks] wf2 ex2 nc2 2(5)
    show ?thesis by auto
  qed
qed

lemma send_keeps_prekeys:
  "accounts (fst (snd (send e d s req i now))) = accounts d
   \<and> one_time_prekeys (fst (snd (send e d s req i now))) = one_time_prekeys d
   \<and> one_time_prekeys_seq (fst (snd (send e d s req i now))) = one_time_prekeys_seq d"
  by (auto simp: send_def insert_message_def Let_def split: option.splits)

lemma delete_message_keeps_prekeys:
  "accounts (snd (delete_message e d s ident)) = accounts d
   \<and> one_time_prekeys (snd (delete_message e d s ident)) = one_time_prekeys d
   \<and> one_time_prekeys_seq (snd (delete_message e d s ident)) = one_time_prekeys_seq d"
  by (auto simp: delete_message_def delete_queue_row_def split: option.splits)

lemma prekey_inv_cong:
  assumes "accounts d' = accounts d" and "one_time_prekeys d' = one_time_prekeys d"
    and "one_time_prekeys_seq d' = one_time_prekeys_seq d"
    and "otpk_wf d" and "account_exists d a" and "\<not> otpk_conflict d a k"
  shows "otpk_wf d' \<and> account_exists d' a \<and> \<not> otpk_conflict d' a k"
  using assms otpk_wf_cong [of d' d]
  by (simp add: account_exists_def otpk_conflict_def)

lemma keys_step_inv:
  assumes "otpk_wf d" and "account_exists d a" and "\<not> otpk_conflict d a k"
    and "\<not> reuploads a k x"
  shows "otpk_wf (snd (keys_step e t d x)) \<and> account_exists (snd (keys_step e t d x)) a
    \<and> \<not> otpk_conflict (snd (keys_step e t d x)) a k"
proof (cases x)
  case (Fetch tgt)
  with get_keys_inv [OF assms(1-3)] show ?thesis by simp
next
  case (Replenish a' req)
  with put_prekeys_inv [OF assms(1-3)] assms(4) show ?thesis by simp
next
  case (Register req new_id now)
  with register_inv [OF assms(1-3)] show ?thesis by simp
next
  case (SendMessage s req i now)
  have "snd (keys_step e t d x) = fst (snd (send e d s req i now))"
    using SendMessage by (simp add: split_beta)
  then show ?thesis
    using prekey_inv_cong [of "fst (snd (send e d s req i now))" d a k]
      send_keeps_prekeys [of e d s req i now] assms(1-3) by simp
next
  case (Drain s)
  with assms(1-3) show ?thesis by (simp add: receive_def)
next
  case (DeleteMessage s ident)
  then show ?thesis
    using prekey_inv_cong [of "snd (delete_message e d s ident)" d a k]
      delete_message_keeps_prekeys [of e d s ident] assms(1-3) by simp
qed

lemma keys_run_never_returns_consumed:
  assumes "otpk_wf d" and "account_exists d a" and "\<not> otpk_conflict d a k"
    and "\<forall>x \<in> set ops. \<not> reuploads a k x"
  shows "\<forall>(x, resp) \<in> set (zip ops (fst (keys_run e t d ops))).
      \<forall>tgt. x = Fetch tgt \<longrightarrow> uuid_in e tgt = Some a \<longrightarrow> fetched_key resp \<noteq> Some k"
  using assms
proof (induction ops arbitrary: d)
  case Nil
  then show ?case by simp
next
  case (Cons x ops)
  obtain resp d1 where s: "keys_step e t d x = (resp, d1)"
    by (cases "keys_step e t d x")
  have nx: "\<not> reuploads a k x" and nops: "\<forall>x \<in> set ops. \<not> reuploads a k x"
    using Cons.prems(4) by simp_all
  from keys_step_inv [OF Cons.prems(1-3) nx, of e t] s
  have inv1: "otpk_wf d1" "account_exists d1 a" "\<not> otpk_conflict d1 a k"
    by simp_all
  note ih = Cons.IH [OF inv1 nops]
  have hd: "\<forall>tgt. x = Fetch tgt \<longrightarrow> uuid_in e tgt = Some a \<longrightarrow> fetched_key resp \<noteq> Some k"
  proof (intro allI impI)
    fix tgt
    assume x: "x = Fetch tgt" and u: "uuid_in e tgt = Some a"
    have "resp = fst (get_keys e t d tgt)"
      using s x by simp
    then show "fetched_key resp \<noteq> Some k"
      using get_keys_not_consumed_again [OF Cons.prems(1,3) u, of t] by simp
  qed
  show ?case
    using hd ih s by (auto split: prod.splits)
qed

text \<open>The constraints of the prekey table hold in every state reached from the empty
  store.\<close>

lemma otpk_wf_get_keys: "otpk_wf d \<Longrightarrow> otpk_wf (snd (get_keys e t d tgt))"
  by (simp add: get_keys_store otpk_wf_delete_oldest split: option.splits)

lemma otpk_wf_put_prekeys:
  assumes "otpk_wf d"
  shows "otpk_wf (snd (put_prekeys d a req))"
proof (cases "pr_one_time_prekeys req")
  case None
  with assms show ?thesis by (simp add: put_prekeys_def)
next
  case (Some ks)
  show ?thesis
    using assms Some otpk_wf_insert_loop [OF assms, of True a ks]
    by (cases "insert_one_time_prekeys True d a ks")
      (auto simp: put_prekeys_def split: sum.splits)
qed

lemma otpk_wf_register:
  assumes "otpk_wf d"
  shows "otpk_wf (snd (register e d req new_id now))"
proof -
  from register_store [of e d req new_id now]
  consider "snd (register e d req new_id now) = d"
    | d2 ks where "one_time_prekeys d2 = one_time_prekeys d"
        "one_time_prekeys_seq d2 = one_time_prekeys_seq d"
        "snd (register e d req new_id now) = d2
            \<or> snd (register e d req new_id now) = snd (insert_one_time_prekeys False d2 new_id ks)"
    by blast
  then show ?thesis
  proof cases
    case 1
    with assms show ?thesis by simp
  next
    case 2
    have wf2: "otpk_wf d2"
      using otpk_wf_cong [of d2 d] 2(1,2) assms by simp
    with otpk_wf_insert_loop [OF wf2, of False new_id ks] 2(3) show ?thesis by auto
  qed
qed

lemma otpk_wf_keys_step:
  assumes "otpk_wf d"
  shows "otpk_wf (snd (keys_step e t d x))"
proof (cases x)
  case (SendMessage s req i now)
  have "snd (keys_step e t d x) = fst (snd (send e d s req i now))"
    using SendMessage by (simp add: split_beta)
  then show ?thesis
    using otpk_wf_cong [of "fst (snd (send e d s req i now))" d]
      send_keeps_prekeys [of e d s req i now] assms by simp
next
  case (DeleteMessage s ident)
  then show ?thesis
    using otpk_wf_cong [of "snd (delete_message e d s ident)" d]
      delete_message_keeps_prekeys [of e d s ident] assms by simp
qed (use assms in \<open>simp_all add: otpk_wf_get_keys otpk_wf_put_prekeys otpk_wf_register receive_def\<close>)

lemma otpk_wf_keys_run: "otpk_wf d \<Longrightarrow> otpk_wf (snd (keys_run e t d xs))"
proof (induction xs arbitrary: d)
  case Nil
  then show ?case by simp
next
  case (Cons x xs)
  from otpk_wf_keys_step [OF Cons.prems, of e t x]
  have "otpk_wf (snd (keys_run e t (snd (keys_step e t d x)) xs))"
    by (rule Cons.IH)
  then show ?case
    by (simp add: split_beta)
qed

lemma otpk_wf_reachable: "otpk_wf (snd (keys_run e t empty_db xs))"
  by (rule otpk_wf_keys_run) (simp add: otpk_wf_def empty_db_def)

text \<open>What a successful fetch has done.\<close>

lemma successful_fetch_consumes_oldest:
  assumes "uuid_in e target = Some a" and "otpk_wf d"
    and "get_keys e t d target = ((200, Keys b n f), d1)"
  shows "(if filter (\<lambda>r. otpk_account_id r = a) (one_time_prekeys d) = []
          then bu_one_time_prekey b = None \<and> d1 = d
          else (\<exists>row \<in> set (one_time_prekeys d). otpk_account_id row = a
                 \<and> (\<forall>r \<in> set (one_time_prekeys d).
                       otpk_account_id r = a \<longrightarrow> otpk_id row \<le> otpk_id r)
                 \<and> bu_one_time_prekey b = Some (otpk_key_id row, to_hex (otpk_public_key row))
                 \<and> d1 = d\<lparr>one_time_prekeys :=
                            filter (\<lambda>r. otpk_id r \<noteq> otpk_id row) (one_time_prekeys d)\<rparr>
                 \<and> row \<notin> set (one_time_prekeys d1)
                 \<and> \<not> otpk_conflict d1 a (otpk_key_id row)))
    \<and> n = count_otpk d1 a
    \<and> (\<forall>k pub ops t'. bu_one_time_prekey b = Some (k, pub) \<longrightarrow>
          (\<forall>x \<in> set ops. \<not> reuploads a k x) \<longrightarrow>
          (\<forall>(x, resp) \<in> set (zip ops (fst (keys_run e t' d1 ops))).
             \<forall>tgt. x = Fetch tgt \<longrightarrow> uuid_in e tgt = Some a \<longrightarrow> fetched_key resp \<noteq> Some k))"
proof -
  note gk = get_keys_Keys [OF assms(1,3)]
  have d1: "d1 = snd (delete_oldest_otpk d a)" and ex: "account_exists d a"
    and n: "n = count_otpk d1 a"
    using gk by simp_all
  have wf1: "otpk_wf d1"
    unfolding d1 by (rule otpk_wf_delete_oldest [OF assms(2)])
  have ex1: "account_exists d1 a"
    using ex delete_oldest_otpk_subset [of d a] by (simp add: d1 account_exists_def)
  let ?pool = "filter (\<lambda>r. otpk_account_id r = a) (one_time_prekeys d)"
  have first: "if ?pool = []
          then bu_one_time_prekey b = None \<and> d1 = d
          else (\<exists>row \<in> set (one_time_prekeys d). otpk_account_id row = a
                 \<and> (\<forall>r \<in> set (one_time_prekeys d).
                       otpk_account_id r = a \<longrightarrow> otpk_id row \<le> otpk_id r)
                 \<and> bu_one_time_prekey b = Some (otpk_key_id row, to_hex (otpk_public_key row))
                 \<and> d1 = d\<lparr>one_time_prekeys :=
                            filter (\<lambda>r. otpk_id r \<noteq> otpk_id row) (one_time_prekeys d)\<rparr>
                 \<and> row \<notin> set (one_time_prekeys d1)
                 \<and> \<not> otpk_conflict d1 a (otpk_key_id row))"
  proof (cases "?pool = []")
    case True
    then show ?thesis
      using gk by (simp add: delete_oldest_otpk_empty)
  next
    case False
    from delete_oldest_otpk_row [OF assms(2) False] obtain row where
      row: "row \<in> set (one_time_prekeys d)" "otpk_account_id row = a"
      and least: "\<forall>r \<in> set (one_time_prekeys d). otpk_account_id r = a \<longrightarrow> otpk_id row \<le> otpk_id r"
      and del: "delete_oldest_otpk d a =
          ([row], d\<lparr>one_time_prekeys :=
                     filter (\<lambda>r. otpk_id r \<noteq> otpk_id row) (one_time_prekeys d)\<rparr>)"
      by auto
    have b: "bu_one_time_prekey b = Some (otpk_key_id row, to_hex (otpk_public_key row))"
      using gk del by simp
    have d1': "d1 = d\<lparr>one_time_prekeys :=
        filter (\<lambda>r. otpk_id r \<noteq> otpk_id row) (one_time_prekeys d)\<rparr>"
      using d1 del by simp
    have gone: "row \<notin> set (one_time_prekeys d1)"
      by (simp add: d1')
    have pairs: "distinct (map (\<lambda>r. (otpk_account_id r, otpk_key_id r)) (one_time_prekeys d))"
      using assms(2) by (simp add: otpk_wf_def)
    have nc: "\<not> otpk_conflict d1 a (otpk_key_id row)"
    proof
      assume "otpk_conflict d1 a (otpk_key_id row)"
      then obtain r where r: "r \<in> set (one_time_prekeys d)" "otpk_id r \<noteq> otpk_id row"
        "otpk_account_id r = a" "otpk_key_id r = otpk_key_id row"
        by (auto simp: otpk_conflict_def d1')
      have "r = row"
        using distinct_map_eq [OF pairs r(1) row(1)] r(3,4) row(2) by simp
      with r(2) show False by simp
    qed
    show ?thesis
      using False row least b d1' gone nc by auto
  qed
  have later: "\<forall>(x, resp) \<in> set (zip ops (fst (keys_run e t' d1 ops))).
             \<forall>tgt. x = Fetch tgt \<longrightarrow> uuid_in e tgt = Some a \<longrightarrow> fetched_key resp \<noteq> Some k"
    if k: "bu_one_time_prekey b = Some (k, pub)" and ops: "\<forall>x \<in> set ops. \<not> reuploads a k x"
    for k pub ops t'
  proof -
    have "?pool \<noteq> []"
      using first k by (auto split: if_splits)
    with first k have "\<not> otpk_conflict d1 a k"
      by (auto split: if_splits)
    then show ?thesis
      by (rule keys_run_never_returns_consumed [OF wf1 ex1 _ ops])
  qed
  show ?thesis
    using first n later by blast
qed

text \<open>
  Claim C1, as the code has it. A bundle fetch for a target account that exists and has
  a signed prekey, on a table that satisfies its constraints, is answered 200 with the
  bundle, the pool size after the fetch and the refill flag. When the account's pool is
  empty the bundle carries no one-time prekey and the store is unchanged; otherwise the
  bundle carries key identifier and key of the account's row with the smallest row
  identifier, and that row is deleted by the same statement, so that no row with that
  (account, key id) is left. In every later run of requests (fetch, replenish, register,
  send, drain, delete) in which no replenish of the target account uploads the consumed
  key identifier again, no fetch for the account returns that key identifier. The store
  keeps no record of consumed key identifiers, so nothing is promised once the identifier
  is uploaded again.
\<close>

theorem fetch_consumes_oldest_prekey:
  assumes "uuid_in e target = Some a" and "otpk_wf d" and "account_exists d a"
    and "\<exists>s \<in> set (signed_prekeys d). spk_account_id s = a"
  shows "\<exists>b d1.
      get_keys e t d target =
        ((200, Keys b (count_otpk d1 a)
                 (count_otpk d1 a < (case t of None \<Rightarrow> 10 | Some n \<Rightarrow> n))), d1)
    \<and> (if filter (\<lambda>r. otpk_account_id r = a) (one_time_prekeys d) = []
        then bu_one_time_prekey b = None \<and> d1 = d
        else (\<exists>row \<in> set (one_time_prekeys d). otpk_account_id row = a
               \<and> (\<forall>r \<in> set (one_time_prekeys d).
                     otpk_account_id r = a \<longrightarrow> otpk_id row \<le> otpk_id r)
               \<and> bu_one_time_prekey b = Some (otpk_key_id row, to_hex (otpk_public_key row))
               \<and> d1 = d\<lparr>one_time_prekeys :=
                          filter (\<lambda>r. otpk_id r \<noteq> otpk_id row) (one_time_prekeys d)\<rparr>
               \<and> row \<notin> set (one_time_prekeys d1)
               \<and> \<not> otpk_conflict d1 a (otpk_key_id row)))
    \<and> (\<forall>k pub ops t'. bu_one_time_prekey b = Some (k, pub) \<longrightarrow>
          (\<forall>x \<in> set ops. \<not> reuploads a k x) \<longrightarrow>
          (\<forall>(x, resp) \<in> set (zip ops (fst (keys_run e t' d1 ops))).
             \<forall>tgt. x = Fetch tgt \<longrightarrow> uuid_in e tgt = Some a \<longrightarrow> fetched_key resp \<noteq> Some k))"
proof -
  have "filter (\<lambda>r. acc_id r = a) (accounts d) \<noteq> []"
    using assms(3) by (auto simp: account_exists_def filter_empty_conv)
  then obtain acc accs where acc: "filter (\<lambda>r. acc_id r = a) (accounts d) = acc # accs"
    by (cases "filter (\<lambda>r. acc_id r = a) (accounts d)") simp_all
  have "filter (\<lambda>r. spk_account_id r = a) (signed_prekeys d) \<noteq> []"
    using assms(4) by (auto simp: filter_empty_conv)
  then obtain spk spks where
    spk: "filter (\<lambda>r. spk_account_id r = a) (signed_prekeys d) = spk # spks"
    by (cases "filter (\<lambda>r. spk_account_id r = a) (signed_prekeys d)") simp_all
  obtain rows d1 where del: "delete_oldest_otpk d a = (rows, d1)"
    by (cases "delete_oldest_otpk d a")
  define b where "b = \<lparr>bu_registration_id = acc_registration_id acc,
      bu_identity_key = to_hex (acc_public_key acc),
      bu_signed_prekey = (spk_key_id spk, to_hex (spk_public_key spk),
                          to_hex (spk_signature spk)),
      bu_one_time_prekey =
        map_option (\<lambda>row. (otpk_key_id row, to_hex (otpk_public_key row)))
          (case rows of [] \<Rightarrow> None | row # rest \<Rightarrow> Some row)\<rparr>"
  have gk: "get_keys e t d target =
      ((200, Keys b (count_otpk d1 a)
               (count_otpk d1 a < (case t of None \<Rightarrow> 10 | Some n \<Rightarrow> n))), d1)"
    using assms(1) acc spk del by (simp add: get_keys_def b_def Let_def)
  note cons = successful_fetch_consumes_oldest [OF assms(1,2) gk]
  show ?thesis
    using gk cons by blast
qed

lemma demo_fetch:
  "get_keys demo_env None demo_db id_a_text =
     ((200, Keys \<lparr>bu_registration_id = 42, bu_identity_key = key_a_hex,
                  bu_signed_prekey = (1, key_b_hex, sig_a_over_b_hex),
                  bu_one_time_prekey = Some (7, ''09'')\<rparr> 0 True),
      demo_db\<lparr>one_time_prekeys := []\<rparr>)"
  by (simp add: get_keys_def demo_env_def demo_uuid_texts demo_ids_distinct demo_db_def
      delete_oldest_otpk_def select_oldest_otpk_id_def count_otpk_def demo_hex_texts)
    (simp add: to_hex_def hex_char_def)

lemma demo_fetch_empty_pool:
  "get_keys demo_env None demo_db id_b_text =
     ((200, Keys \<lparr>bu_registration_id = 43, bu_identity_key = key_b_hex,
                  bu_signed_prekey = (1, key_a_hex, sig_b_over_a_hex),
                  bu_one_time_prekey = None\<rparr> 0 True),
      demo_db)"
  by (simp add: get_keys_def demo_env_def demo_uuid_texts demo_ids_distinct demo_db_def
      delete_oldest_otpk_def select_oldest_otpk_id_def count_otpk_def demo_hex_texts)

text \<open>Account A of the example store holds key identifier 7. A fetch consumes it;
  later fetches, around an upload of key identifier 8, return nothing and then 8.
  Account B has an empty pool: a fetch is answered 200 with no one-time prekey and leaves
  the store as it was.\<close>

theorem fetch_consumes_oldest_prekey_witness:
  "uuid_in demo_env id_a_text = Some id_a
   \<and> uuid_in demo_env id_b_text = Some id_b
   \<and> otpk_wf demo_db
   \<and> account_exists demo_db id_a
   \<and> account_exists demo_db id_b
   \<and> get_keys demo_env None demo_db id_a_text =
       ((200, Keys \<lparr>bu_registration_id = 42, bu_identity_key = key_a_hex,
                    bu_signed_prekey = (1, key_b_hex, sig_a_over_b_hex),
                    bu_one_time_prekey = Some (7, ''09'')\<rparr> 0 True),
        demo_db\<lparr>one_time_prekeys := []\<rparr>)
   \<and> get_keys demo_env None demo_db id_b_text =
       ((200, Keys \<lparr>bu_registration_id = 43, bu_identity_key = key_b_hex,
                    bu_signed_prekey = (1, key_a_hex, sig_b_over_a_hex),
                    bu_one_time_prekey = None\<rparr> 0 True),
        demo_db)
   \<and> fst (fst (get_keys demo_env None demo_db id_b_text)) = 200
   \<and> snd (get_keys demo_env None demo_db id_b_text) = demo_db
   \<and> fst (fst (get_keys demo_env None demo_db id_a_text)) = 200
   \<and> count_otpk (snd (get_keys demo_env None demo_db id_a_text)) id_a = 0
   \<and> map fetched_key
       (fst (keys_run demo_env None (demo_db\<lparr>one_time_prekeys := []\<rparr>)
          [Fetch id_a_text,
           Replenish id_a
             \<lparr>pr_one_time_prekeys = Some [\<lparr>pki_key_id = 8, pki_public_key = key_c_hex\<rparr>]\<rparr>,
           Fetch id_a_text])) =
       [None, None, Some 8]"
proof -
  let ?d1 = "demo_db\<lparr>one_time_prekeys := []\<rparr>"
  have a1: "uuid_in demo_env id_a_text = Some id_a"
    and b1: "uuid_in demo_env id_b_text = Some id_b"
    by (simp_all add: demo_env_def demo_uuid_texts)
  have wf: "otpk_wf demo_db"
    by (simp add: otpk_wf_def demo_db_def)
  have a3: "account_exists demo_db id_a" and b3: "account_exists demo_db id_b"
    by (simp_all add: account_exists_def demo_db_def)
  have a4: "\<exists>s \<in> set (signed_prekeys demo_db). spk_account_id s = id_a"
    and b4: "\<exists>s \<in> set (signed_prekeys demo_db). spk_account_id s = id_b"
    by (simp_all add: demo_db_def)
  have pool_b: "filter (\<lambda>r. otpk_account_id r = id_b) (one_time_prekeys demo_db) = []"
    by (simp add: demo_db_def demo_ids_distinct)
  have pool_a: "filter (\<lambda>r. otpk_account_id r = id_a) (one_time_prekeys demo_db) \<noteq> []"
    by (simp add: demo_db_def)
  from fetch_consumes_oldest_prekey [OF b1 wf b3 b4, of None] obtain bb db where
    gb: "get_keys demo_env None demo_db id_b_text =
      ((200, Keys bb (count_otpk db id_b) (count_otpk db id_b < 10)), db)"
    and cb: "if filter (\<lambda>r. otpk_account_id r = id_b) (one_time_prekeys demo_db) = []
        then bu_one_time_prekey bb = None \<and> db = demo_db
        else (\<exists>row \<in> set (one_time_prekeys demo_db). otpk_account_id row = id_b
               \<and> (\<forall>r \<in> set (one_time_prekeys demo_db).
                     otpk_account_id r = id_b \<longrightarrow> otpk_id row \<le> otpk_id r)
               \<and> bu_one_time_prekey bb = Some (otpk_key_id row, to_hex (otpk_public_key row))
               \<and> db = demo_db\<lparr>one_time_prekeys :=
                          filter (\<lambda>r. otpk_id r \<noteq> otpk_id row) (one_time_prekeys demo_db)\<rparr>
               \<and> row \<notin> set (one_time_prekeys db)
               \<and> \<not> otpk_conflict db id_b (otpk_key_id row))"
    by (elim exE conjE) simp
  have db: "db = demo_db"
    using cb pool_b by simp
  have sb: "fst (fst (get_keys demo_env None demo_db id_b_text)) = 200"
    using gb by simp
  have ub: "snd (get_keys demo_env None demo_db id_b_text) = demo_db"
    using gb db by simp
  from fetch_consumes_oldest_prekey [OF a1 wf a3 a4, of None] obtain ba da where
    ga: "get_keys demo_env None demo_db id_a_text =
      ((200, Keys ba (count_otpk da id_a) (count_otpk da id_a < 10)), da)"
    by (elim exE conjE) simp
  have sa: "fst (fst (get_keys demo_env None demo_db id_a_text)) = 200"
    using ga by simp
  have ca: "count_otpk (snd (get_keys demo_env None demo_db id_a_text)) id_a = 0"
    by (simp add: demo_fetch count_otpk_def)
  have run: "map fetched_key
       (fst (keys_run demo_env None ?d1
          [Fetch id_a_text,
           Replenish id_a
             \<lparr>pr_one_time_prekeys = Some [\<lparr>pki_key_id = 8, pki_public_key = key_c_hex\<rparr>]\<rparr>,
           Fetch id_a_text])) =
       [None, None, Some 8]"
    by (simp add: get_keys_def demo_env_def demo_uuid_texts demo_ids_distinct demo_db_def
      delete_oldest_otpk_def select_oldest_otpk_id_def count_otpk_def
      put_prekeys_def insert_one_time_prekey_def Let_def int4_ok_def serial_max_def
      otpk_conflict_def account_exists_def key_c_bytes del: buffer_from_hex.simps)
  from a1 b1 wf a3 b3 demo_fetch demo_fetch_empty_pool sb ub sa ca run
  show ?thesis by (intro conjI)
qed

text \<open>Claim C1 as stated fails: after the fetch has consumed key identifier 7 of
  account A, the account uploads key identifier 7 again and the next fetch returns the
  pair (account A, key identifier 7) a second time.\<close>

theorem prekey_returned_again_after_reupload:
  "map fetched_key
     (fst (keys_run demo_env None demo_db
        [Fetch id_a_text,
         Replenish id_a
           \<lparr>pr_one_time_prekeys = Some [\<lparr>pki_key_id = 7, pki_public_key = key_c_hex\<rparr>]\<rparr>,
         Fetch id_a_text])) =
     [Some 7, None, Some 7]"
  by (simp add: get_keys_def demo_env_def demo_uuid_texts demo_ids_distinct demo_db_def
      delete_oldest_otpk_def select_oldest_otpk_id_def count_otpk_def
      put_prekeys_def insert_one_time_prekey_def Let_def int4_ok_def serial_max_def
      otpk_conflict_def account_exists_def key_c_bytes del: buffer_from_hex.simps)

end
